theory Spec2Isabelle
  imports Complex_Main "HOL-Library.Word" "HOL-Library.Signed_Division"
begin

unbundle bit_operations_syntax

section \<open>Machine integers of the driver\<close>

text \<open>
  The driver (\<^verbatim>\<open>at24cxx.cpp\<close>) works on \<^verbatim>\<open>uint8_t\<close>, \<^verbatim>\<open>uint16_t\<close> and \<^verbatim>\<open>uint32_t\<close>.
  Operands narrower than \<^verbatim>\<open>int\<close> are promoted to \<^verbatim>\<open>int\<close> before arithmetic, so an
  expression such as \<^verbatim>\<open>address + len\<close> is computed on integers (\<open>uint\<close> reads the
  operand) and a cast or an assignment to a narrower type reduces the result modulo the
  width of the target (\<open>word_of_int\<close>). Every intermediate value of the driver lies
  between \<open>-1\<close> and \<open>131070\<close>, well inside a 32-bit \<^verbatim>\<open>int\<close>. Division and remainder
  on \<^verbatim>\<open>int\<close> truncate towards zero (\<open>sdiv\<close>, \<open>smod\<close>).
\<close>

type_synonym uint8_t = "8 word"
type_synonym uint16_t = "16 word"
type_synonym uint32_t = "32 word"

abbreviation u8 :: "int \<Rightarrow> uint8_t" where "u8 \<equiv> word_of_int"
abbreviation u16 :: "int \<Rightarrow> uint16_t" where "u16 \<equiv> word_of_int"
abbreviation u32 :: "int \<Rightarrow> uint32_t" where "u32 \<equiv> word_of_int"

section \<open>Chip selection constants\<close>

text \<open>
  \<^verbatim>\<open>chip size | page size << 20 | addr bytes << 28 | addr overflow bits << 30\<close>,
  stored in a \<^verbatim>\<open>uint32_t\<close>.
\<close>

definition AT24C01 :: uint32_t where
  "AT24C01 = 128 OR push_bit 20 8 OR push_bit 28 1 OR push_bit 30 0"
definition AT24C02 :: uint32_t where
  "AT24C02 = 256 OR push_bit 20 8 OR push_bit 28 1 OR push_bit 30 0"
definition AT24C04 :: uint32_t where
  "AT24C04 = 512 OR push_bit 20 16 OR push_bit 28 1 OR push_bit 30 1"
definition AT24C08 :: uint32_t where
  "AT24C08 = 1024 OR push_bit 20 16 OR push_bit 28 1 OR push_bit 30 2"
definition AT24C16 :: uint32_t where
  "AT24C16 = 2048 OR push_bit 20 16 OR push_bit 28 1 OR push_bit 30 3"
definition AT24C32 :: uint32_t where
  "AT24C32 = 4096 OR push_bit 20 32 OR push_bit 28 2 OR push_bit 30 0"
definition AT24C64 :: uint32_t where
  "AT24C64 = 8192 OR push_bit 20 32 OR push_bit 28 2 OR push_bit 30 0"
definition AT24C128 :: uint32_t where
  "AT24C128 = 16384 OR push_bit 20 64 OR push_bit 28 2 OR push_bit 30 0"
definition AT24C256 :: uint32_t where
  "AT24C256 = 32768 OR push_bit 20 64 OR push_bit 28 2 OR push_bit 30 0"
definition AT24C512 :: uint32_t where
  "AT24C512 = 65536 OR push_bit 20 128 OR push_bit 28 2 OR push_bit 30 0"

definition chip_table :: "uint32_t list" where
  "chip_table = [AT24C01, AT24C02, AT24C04, AT24C08, AT24C16,
                 AT24C32, AT24C64, AT24C128, AT24C256, AT24C512]"

definition AT24CXX_ADDR :: uint8_t where
  "AT24CXX_ADDR = 0x50"

definition EEPROM_WRITE_CYCLE_TIME_MS :: uint8_t where
  "EEPROM_WRITE_CYCLE_TIME_MS = 5"

section \<open>The hardware abstraction layer, as a log of calls\<close>

text \<open>
  The bus transport (\<^verbatim>\<open>HAL::I2C\<close>), the pin (\<^verbatim>\<open>HAL::GPIO\<close>) and
  \<^verbatim>\<open>HAL::delay_ms\<close> are collaborators outside the repository. The model records every
  call the driver makes to them, with its arguments, in the order made. A pointer into
  the caller's buffer, \<^verbatim>\<open>&vals[bytes_sent]\<close>, is the buffer with the index.
\<close>

datatype buf_ptr = Buf "uint8_t list" nat

datatype hal_call =
    I2C_init
  | I2C_setAddress uint8_t
  | I2C_write8 uint8_t buf_ptr uint8_t
  | I2C_write16 uint16_t buf_ptr uint8_t
  | I2C_writeRead8 uint8_t uint16_t
  | I2C_writeRead16 uint16_t uint16_t
  | GPIO_pinMode_OUTPUT
  | GPIO_digitalWrite bool
  | delay_ms uint8_t

section \<open>The device object\<close>

text \<open>
  The data members of \<^verbatim>\<open>class AT24CXX\<close> (the leading underscore of the member names is
  dropped), and \<open>hal\<close>, the log of the calls made so far through \<^verbatim>\<open>_i2c\<close>,
  \<^verbatim>\<open>_wp_pin\<close> and \<^verbatim>\<open>HAL::delay_ms\<close>.
\<close>

record AT24CXX =
  wp_pin :: uint8_t
  chip_size :: uint32_t
  chip_addr :: uint8_t
  page_size :: uint8_t
  addr_bytes :: uint8_t
  addr_ov_bits :: uint8_t
  addr_size :: uint8_t
  mode :: uint8_t
  hal :: "hal_call list"

definition emit :: "hal_call \<Rightarrow> AT24CXX \<Rightarrow> AT24CXX" where
  "emit c s = s\<lparr>hal := hal s @ [c]\<rparr>"

text \<open>The constructor: field extraction from the packed constant, no bus activity.\<close>

definition AT24CXX_new :: "uint32_t \<Rightarrow> uint8_t \<Rightarrow> uint8_t \<Rightarrow> AT24CXX" where
  "AT24CXX_new chip chip_addr' wp_pin' =
     \<lparr> wp_pin = wp_pin',
       chip_size = chip AND 0x0001FFFF,
       chip_addr = AT24CXX_ADDR OR (chip_addr' AND 0x07),
       page_size = ucast (drop_bit 20 (chip AND 0x0FF00000)),
       addr_bytes = ucast (drop_bit 28 (chip AND 0x30000000)),
       addr_ov_bits = ucast (drop_bit 30 (chip AND 0xC0000000)),
       addr_size = 0,
       mode = wp_pin',
       hal = [] \<rparr>"

text \<open>
  \<^verbatim>\<open>init\<close>. The member \<^verbatim>\<open>_mode\<close> is a \<^verbatim>\<open>uint8_t\<close>; in \<^verbatim>\<open>_mode != -1\<close> it is
  promoted to \<^verbatim>\<open>int\<close>, so the comparison is between a value in \<open>0..255\<close> and
  \<open>-1\<close>.
\<close>

definition init :: "AT24CXX \<Rightarrow> AT24CXX" where
  "init s =
     (let s1 = emit I2C_init s in
      if uint (mode s1) \<noteq> - 1 then
        (emit (GPIO_digitalWrite False) (emit GPIO_pinMode_OUTPUT s1))\<lparr>mode := 2\<rparr>
      else
        s1\<lparr>mode := 1\<rparr>)"

definition setWriteProtect :: "AT24CXX \<Rightarrow> AT24CXX" where
  "setWriteProtect s = (if 2 = mode s then emit (GPIO_digitalWrite True) s else s)"

definition clearWriteProtect :: "AT24CXX \<Rightarrow> AT24CXX" where
  "clearWriteProtect s = (if 2 = mode s then emit (GPIO_digitalWrite False) s else s)"

section \<open>Writing\<close>

datatype fault = Division_by_zero

text \<open>
  The local \<^verbatim>\<open>page_size\<close> of \<^verbatim>\<open>writeN\<close> after its first two statements: the
  chip's page size, or 16 for a chip with more than one address byte when more than 30
  bytes are written.
\<close>

definition write_page_size :: "AT24CXX \<Rightarrow> uint16_t \<Rightarrow> uint8_t" where
  "write_page_size s len = (if 1 < addr_bytes s \<and> 30 < len then 16 else page_size s)"

text \<open>
  The \<^verbatim>\<open>for\<close> loop of \<^verbatim>\<open>writeN\<close>, one pass per call. The loop variables are
  \<open>i\<close>, \<open>bytes_sent\<close> and \<open>offset\<close>; the device object changes only in its log of
  calls.
\<close>

function writeN_loop ::
  "AT24CXX \<Rightarrow> uint16_t \<Rightarrow> uint8_t list \<Rightarrow> uint16_t \<Rightarrow> uint8_t \<Rightarrow> uint16_t
     \<Rightarrow> uint16_t \<Rightarrow> uint16_t \<Rightarrow> uint8_t \<Rightarrow> AT24CXX" where
  "writeN_loop s address vals len page_size' pages_req i bytes_sent offset =
     (if i < pages_req then
        let s1 = (if addr_ov_bits s \<noteq> 0
                  then emit (I2C_setAddress
                         (u8 ((uint (chip_addr s) AND 0xF8)
                               OR drop_bit 8 ((uint address + uint bytes_sent) AND 0x0700)))) s
                  else s);
            chunk = u8 (if uint page_size' - uint offset < uint len - uint bytes_sent
                        then uint page_size' - uint offset
                        else uint len - uint bytes_sent);
            s2 = (if 1 < addr_bytes s
                  then emit (I2C_write16 (u16 (uint address + uint bytes_sent))
                               (Buf vals (unat bytes_sent)) chunk) s1
                  else emit (I2C_write8 (u8 (uint address + uint bytes_sent))
                               (Buf vals (unat bytes_sent)) chunk) s1);
            bytes_sent' = u16 (uint bytes_sent + uint chunk);
            s3 = emit (delay_ms EEPROM_WRITE_CYCLE_TIME_MS) s2
        in writeN_loop s3 address vals len page_size' pages_req (i + 1) bytes_sent' 0
      else s)"
  by pat_completeness auto
termination
proof (relation "measure (\<lambda>(s, address, vals, len, ps, pages_req, i, bytes_sent, offset).
                           unat pages_req - unat i)")
  show "wf (measure (\<lambda>(s, address, vals, len, ps, pages_req, i, bytes_sent, offset).
                           unat pages_req - unat (i :: uint16_t)))"
    by simp
next
  fix s :: AT24CXX and address :: uint16_t and vals :: "uint8_t list" and len :: uint16_t
    and page_size' :: uint8_t and pages_req i bytes_sent :: uint16_t and offset :: uint8_t
    and s1 chunk s2 bytes_sent' s3
  assume lt: "i < pages_req"
  then have less: "unat i < unat pages_req"
    by (simp add: word_less_nat_alt)
  moreover have "unat pages_req < 2 ^ LENGTH(16)"
    by (rule unsigned_less)
  ultimately have "unat i + unat (1 :: uint16_t) < 2 ^ LENGTH(16)"
    by simp
  then have "unat (i + 1) = unat i + unat (1 :: uint16_t)"
    by (simp only: unat_add_lem)
  with less show "((s3, address, vals, len, page_size', pages_req, i + 1, bytes_sent', 0),
          (s, address, vals, len, page_size', pages_req, i, bytes_sent, offset))
        \<in> measure (\<lambda>(s, address, vals, len, ps, pages_req, i, bytes_sent, offset).
                           unat pages_req - unat i)"
    by simp
qed

text \<open>
  \<^verbatim>\<open>writeN\<close>. The remainder \<^verbatim>\<open>address % page_size\<close> and the quotient
  \<^verbatim>\<open>(len + offset - 1) / page_size\<close> are \<^verbatim>\<open>int\<close> operations, truncating towards
  zero; with a page size of 0 they are undefined, which the model reports as a fault.
\<close>

definition writeN ::
  "AT24CXX \<Rightarrow> uint16_t \<Rightarrow> uint8_t list \<Rightarrow> uint16_t \<Rightarrow> fault + (bool \<times> AT24CXX)" where
  "writeN s address vals len =
     (if mode s \<noteq> 0 \<and> u32 (uint address + uint len) \<le> chip_size s then
        let page_size' = write_page_size s len in
        if page_size' = 0 then Inl Division_by_zero
        else
          let offset = u8 (uint address smod uint page_size');
              pages_req = u16 (((uint len + uint offset - 1) sdiv uint page_size') + 1)
          in Inr (True, writeN_loop s address vals len page_size' pages_req 0 0 offset)
      else Inr (False, s))"

section \<open>Reading\<close>

text \<open>
  \<^verbatim>\<open>readN\<close>. The buffer \<^verbatim>\<open>vals\<close> is filled by the transport; the driver only
  passes it on, and the model records the in-chip address and the length of the call.
\<close>

definition readN :: "AT24CXX \<Rightarrow> uint16_t \<Rightarrow> uint16_t \<Rightarrow> bool \<times> AT24CXX" where
  "readN s address len =
     (if mode s \<noteq> 0 \<and> u32 (uint address + uint len) \<le> chip_size s then
        let s1 = (if addr_ov_bits s \<noteq> 0
                  then emit (I2C_setAddress
                         (u8 ((uint (chip_addr s) AND 0xF8)
                               OR drop_bit 8 ((uint address + 0) AND 0x0700)))) s
                  else s);
            s2 = (if 1 < addr_bytes s
                  then emit (I2C_writeRead16 (u16 (uint address)) len) s1
                  else emit (I2C_writeRead8 (u8 (uint address)) len) s1)
        in (True, s2)
      else (False, s))"

section \<open>The public operations\<close>

definition write_byte :: "AT24CXX \<Rightarrow> uint16_t \<Rightarrow> uint8_t \<Rightarrow> fault + (bool \<times> AT24CXX)" where
  "write_byte s address val = writeN s address [val] 1"

definition write_vals ::
  "AT24CXX \<Rightarrow> uint16_t \<Rightarrow> uint8_t list \<Rightarrow> uint16_t \<Rightarrow> fault + (bool \<times> AT24CXX)" where
  "write_vals s address vals len = writeN s address vals len"

definition write_str ::
  "AT24CXX \<Rightarrow> uint16_t \<Rightarrow> string \<Rightarrow> uint16_t \<Rightarrow> fault + (bool \<times> AT24CXX)" where
  "write_str s address str len = writeN s address (map of_char str) len"

text \<open>
  \<^verbatim>\<open>uint8_t read(uint16_t address)\<close> returns its local \<^verbatim>\<open>byte\<close> whatever
  \<^verbatim>\<open>readN\<close> reports. \<open>rx\<close> is the byte the transport stores there when the
  transaction is made; without a transaction the local is never written, and the result
  is \<open>None\<close>.
\<close>

definition read_byte :: "AT24CXX \<Rightarrow> uint16_t \<Rightarrow> uint8_t \<Rightarrow> uint8_t option \<times> AT24CXX" where
  "read_byte s address rx =
     (case readN s address 1 of (ok, s') \<Rightarrow> (if ok then Some rx else None, s'))"

definition read_vals :: "AT24CXX \<Rightarrow> uint16_t \<Rightarrow> uint16_t \<Rightarrow> bool \<times> AT24CXX" where
  "read_vals s address len = readN s address len"

definition read_str :: "AT24CXX \<Rightarrow> uint16_t \<Rightarrow> uint16_t \<Rightarrow> bool \<times> AT24CXX" where
  "read_str s address len = readN s address len"

section \<open>Notions used to state the properties\<close>

text \<open>
  The calls of one pass of the loop of \<^verbatim>\<open>writeN\<close>, for a chunk of \<open>n\<close> bytes at
  the logical address \<open>a\<close>, which is \<^verbatim>\<open>address + bytes_sent\<close>: the bus address when
  the chip folds address bits into it, the write, and the write-cycle delay. The write
  is handed the buffer at the index \<^verbatim>\<open>bytes_sent\<close>, which is \<open>a\<close> less the address of
  the request.
\<close>

fun chunk_calls :: "AT24CXX \<Rightarrow> uint16_t \<Rightarrow> uint8_t list \<Rightarrow> nat \<times> nat \<Rightarrow> hal_call list" where
  "chunk_calls s address vals (a, n) =
     (if addr_ov_bits s \<noteq> 0
      then [I2C_setAddress (u8 ((uint (chip_addr s) AND 0xF8) OR drop_bit 8 (int a AND 0x0700)))]
      else [])
     @ [if 1 < addr_bytes s
        then I2C_write16 (u16 (int a)) (Buf vals (a - unat address)) (u8 (int n))
        else I2C_write8 (u8 (int a)) (Buf vals (a - unat address)) (u8 (int n))]
     @ [delay_ms EEPROM_WRITE_CYCLE_TIME_MS]"

text \<open>
  The chunking algorithm in the words of the specification, on natural numbers: \<open>k\<close>
  chunks from the state \<open>bytes_sent\<close>, \<open>offset\<close>, each chunk a pair of its logical
  address and its size; the number of chunks, \<open>ceil ((length + offset) / eps)\<close>; and
  the plan of a request.
\<close>

fun spec_chunks_from :: "nat \<Rightarrow> nat \<Rightarrow> nat \<Rightarrow> nat \<Rightarrow> nat \<Rightarrow> nat \<Rightarrow> (nat \<times> nat) list" where
  "spec_chunks_from 0 eps address len bytes_sent offset = []"
| "spec_chunks_from (Suc k) eps address len bytes_sent offset =
     (let chunk_size = min (eps - offset) (len - bytes_sent) in
      (address + bytes_sent, chunk_size)
        # spec_chunks_from k eps address len (bytes_sent + chunk_size) 0)"

definition spec_chunk_count :: "nat \<Rightarrow> nat \<Rightarrow> nat \<Rightarrow> nat" where
  "spec_chunk_count eps address len = (len + address mod eps + eps - 1) div eps"

definition spec_chunks :: "nat \<Rightarrow> nat \<Rightarrow> nat \<Rightarrow> (nat \<times> nat) list" where
  "spec_chunks eps address len =
     spec_chunks_from (spec_chunk_count eps address len) eps address len 0 (address mod eps)"

text \<open>
  A device after \<^verbatim>\<open>init()\<close>, in any state it can be in afterwards: the operations
  of the driver change nothing of the object but the log of calls, here \<open>h\<close>.
\<close>

definition initialized_device ::
  "uint32_t \<Rightarrow> uint8_t \<Rightarrow> uint8_t \<Rightarrow> hal_call list \<Rightarrow> AT24CXX" where
  "initialized_device chip chip_addr' wp_pin' h =
     (init (AT24CXX_new chip chip_addr' wp_pin'))\<lparr>hal := h\<rparr>"

text \<open>The addresses a chunk covers.\<close>

fun chunk_range :: "nat \<times> nat \<Rightarrow> nat list" where
  "chunk_range (a, n) = [a ..< a + n]"

text \<open>
  The value \<^verbatim>\<open>writeN\<close> computes for its local \<^verbatim>\<open>pages_req\<close>, the number of passes
  of its loop, from the page size in use, the address and the length.
\<close>

definition pages_req_of :: "uint8_t \<Rightarrow> uint16_t \<Rightarrow> uint16_t \<Rightarrow> uint16_t" where
  "pages_req_of page_size' address len =
     u16 (((uint len + uint (u8 (uint address smod uint page_size')) - 1)
            sdiv uint page_size') + 1)"

text \<open>The calls that move data over the bus.\<close>

fun is_transaction :: "hal_call \<Rightarrow> bool" where
  "is_transaction (I2C_write8 a p n) = True"
| "is_transaction (I2C_write16 a p n) = True"
| "is_transaction (I2C_writeRead8 a n) = True"
| "is_transaction (I2C_writeRead16 a n) = True"
| "is_transaction c = False"

section \<open>Facts about the machine arithmetic\<close>

declare writeN_loop.simps [simp del]

lemmas chip_defs =
  AT24C01_def AT24C02_def AT24C04_def AT24C08_def AT24C16_def
  AT24C32_def AT24C64_def AT24C128_def AT24C256_def AT24C512_def

lemmas driver_defs =
  AT24CXX_new_def init_def emit_def AT24CXX_ADDR_def EEPROM_WRITE_CYCLE_TIME_MS_def
  write_page_size_def writeN_def readN_def writeN_loop.simps
  signed_divide_int_def signed_modulo_int_def

lemma word_succ_unat:
  fixes i m :: "'a::len word"
  assumes "i < m"
  shows "unat (i + 1) = Suc (unat i)"
proof -
  from assms have "unat i < unat m"
    by (simp add: word_less_nat_alt)
  moreover have "unat m < 2 ^ LENGTH('a)"
    by (rule unsigned_less)
  ultimately have "Suc (unat i) < 2 ^ LENGTH('a)"
    by linarith
  then have "unat i + unat (1 :: 'a word) < 2 ^ LENGTH('a)"
    by simp
  then have "unat (i + 1) = unat i + unat (1 :: 'a word)"
    by (simp only: unat_add_lem)
  then show ?thesis by simp
qed

lemma unat_add_of_nat:
  fixes b l :: "'a::len word"
  assumes "unat b + n \<le> unat l"
  shows "unat (b + of_nat n) = unat b + n"
proof -
  have l: "unat l < 2 ^ LENGTH('a)"
    by (rule unsigned_less)
  with assms have "n < 2 ^ LENGTH('a)" by linarith
  then have n: "unat (of_nat n :: 'a word) = n"
    by (simp add: unat_of_nat)
  with assms l have "unat b + unat (of_nat n :: 'a word) < 2 ^ LENGTH('a)"
    by linarith
  then have "unat (b + of_nat n) = unat b + unat (of_nat n :: 'a word)"
    by (simp only: unat_add_lem)
  with n show ?thesis by simp
qed

lemma min_int_nat:
  fixes P O' L S :: nat
  assumes "O' < P" "S \<le> L"
  shows "(if int P - int O' < int L - int S then int P - int O' else int L - int S)
         = int (min (P - O') (L - S))"
  using assms by (simp add: min_def of_nat_diff) linarith

text \<open>The range check \<^verbatim>\<open>(uint32_t)(address + len) <= _chip_size\<close> never wraps.\<close>

lemma range_check:
  fixes address len :: uint16_t and size :: uint32_t
  shows "u32 (uint address + uint len) \<le> size \<longleftrightarrow> uint address + uint len \<le> uint size"
proof -
  have a: "uint address < 2 ^ LENGTH(16)" and l: "uint len < 2 ^ LENGTH(16)"
    by (rule unsigned_less)+
  have "0 \<le> uint address" and "0 \<le> uint len"
    by simp_all
  with a l have "uint address + uint len < 2 ^ LENGTH(32)" "0 \<le> uint address + uint len"
    by simp_all
  then have "(uint address + uint len) mod 2 ^ LENGTH(32) = uint address + uint len"
    by (simp only: mod_pos_pos_trivial)
  then have "uint (u32 (uint address + uint len)) = uint address + uint len"
    by (simp only: uint_word_of_int)
  then show ?thesis
    by (simp only: word_le_def)
qed

lemma smod_nonneg:
  fixes k l :: int
  assumes "0 \<le> k" "0 \<le> l"
  shows "k smod l = k mod l"
  using assms by (cases "k = 0") (simp_all add: signed_modulo_int_def sgn_if)

lemma sdiv_nonneg:
  fixes k l :: int
  assumes "0 \<le> k" "0 < l"
  shows "k sdiv l = k div l"
  using assms by (cases "k = 0") (simp_all add: signed_divide_int_def sgn_if)

lemma offset_value:
  fixes address :: uint16_t and ps :: uint8_t
  assumes "ps \<noteq> 0"
  shows "unat (u8 (uint address smod uint ps)) = unat address mod unat ps"
proof -
  have "uint address smod uint ps = uint address mod uint ps"
    by (rule smod_nonneg) simp_all
  also have "\<dots> = int (unat address mod unat ps)"
    by (simp only: uint_nat zmod_int)
  finally have eq: "u8 (uint address smod uint ps) = of_nat (unat address mod unat ps)"
    by simp
  have "0 < unat ps"
    using assms by (simp add: unat_gt_0)
  then have "unat address mod unat ps < unat ps"
    by simp
  also have "unat ps < 2 ^ LENGTH(8)"
    by (rule unsigned_less)
  finally show ?thesis
    unfolding eq by (simp only: unat_of_nat mod_less)
qed

lemma chunk_count_bound:
  fixes len off eps :: nat
  assumes "off < eps" "0 < len + off"
  shows "(len + off - 1) div eps + 1 \<le> max 1 len"
proof (cases len)
  case 0
  with assms show ?thesis by simp
next
  case (Suc m)
  have "m \<le> m * eps"
    using assms(1) by (cases eps) simp_all
  moreover have "Suc m * eps = eps + m * eps"
    by simp
  ultimately have "m + off < Suc m * eps"
    using assms(1) by linarith
  then have "(m + off) div eps < Suc m"
    by (rule less_mult_imp_div_less)
  with Suc show ?thesis by simp
qed

lemma pages_req_value:
  fixes len :: uint16_t and offset ps :: uint8_t
  assumes off: "unat offset < unat ps" and pos: "0 < unat len + unat offset"
  shows "unat (u16 (((uint len + uint offset - 1) sdiv uint ps) + 1))
         = (unat len + unat offset + unat ps - 1) div unat ps"
proof -
  define L where "L = unat len"
  define O' where "O' = unat offset"
  define P where "P = unat ps"
  have P: "0 < P" and O': "O' < P" and LO: "0 < L + O'"
    using off pos by (simp_all add: L_def O'_def P_def)
  have num: "uint len + uint offset - 1 = int (L + O' - 1)"
    using LO unfolding L_def O'_def by (simp only: uint_nat)
  have "int (L + O' - 1) sdiv int P = int (L + O' - 1) div int P"
    using P by (intro sdiv_nonneg) simp_all
  also have "\<dots> = int ((L + O' - 1) div P)"
    by (simp only: zdiv_int)
  finally have quot: "int (L + O' - 1) sdiv int P = int ((L + O' - 1) div P)" .
  have ps: "uint ps = int P"
    unfolding P_def by (rule uint_nat)
  have val: "((uint len + uint offset - 1) sdiv uint ps) + 1
             = int ((L + O' - 1) div P + 1)"
    unfolding num ps quot by (simp only: of_nat_add of_nat_1)
  have "(L + O' - 1) div P + 1 \<le> max 1 L"
    using O' LO by (rule chunk_count_bound)
  moreover have "L < 2 ^ LENGTH(16)"
    unfolding L_def by (rule unsigned_less)
  ultimately have small: "(L + O' - 1) div P + 1 < 2 ^ LENGTH(16)"
    by simp
  have "(L + O' - 1) div P + 1 = (L + O' - 1 + P) div P"
    using P by simp
  also have "L + O' - 1 + P = L + O' + P - 1"
    using LO by linarith
  finally have ceil: "(L + O' - 1) div P + 1 = (L + O' + P - 1) div P" .
  have "unat (u16 (((uint len + uint offset - 1) sdiv uint ps) + 1))
        = (L + O' - 1) div P + 1"
    unfolding val using small
    by (simp only: word_of_int_nat of_nat_0_le_iff nat_int unat_of_nat mod_less)
  also note ceil
  finally show ?thesis
    unfolding L_def O'_def P_def .
qed

section \<open>The folded bus address\<close>

lemma u8_or:
  fixes X :: uint8_t and Y :: uint16_t
  shows "u8 (uint X OR uint Y) = X OR ucast Y"
  by (rule bit_word_eqI) (auto simp add: bit_simps dest: bit_imp_le_length)

lemma folded_word:
  fixes base :: uint8_t and a :: uint16_t
  shows "u8 ((uint base AND 0xF8) OR drop_bit 8 (uint a AND 0x0700))
         = (base AND 0xF8) OR ucast (drop_bit 8 (a AND 0x0700))"
proof -
  have 1: "uint base AND 0xF8 = uint (base AND 0xF8)"
    by (simp add: uint_and)
  have 2: "drop_bit 8 (uint a AND 0x0700) = uint (drop_bit 8 (a AND 0x0700))"
    by (simp add: uint_and drop_bit_eq_div uint_div_distrib)
  show ?thesis
    unfolding 1 2 by (rule u8_or)
qed

lemma high_bits_clear:
  fixes a :: uint16_t
  assumes "uint a < 2 ^ m" and "bit a n"
  shows "n < m"
proof -
  from assms(1) have "a AND mask m = a"
    by (simp only: mask_eq_iff)
  then have "bit (a AND mask m) n"
    using assms(2) by simp
  then show ?thesis
    by (simp add: bit_and_iff bit_mask_iff)
qed

lemma folded_bits:
  fixes a :: uint16_t
  assumes k: "k \<le> 3" and a: "uint a < 2 ^ (8 + k)"
  shows "drop_bit 8 (a AND 0x0700) = drop_bit 8 a AND mask k"
proof -
  have "drop_bit 8 (a AND 0x0700) = drop_bit 8 a AND mask 3"
    by (simp add: mask_eq_exp_minus_1)
  also have "\<dots> = drop_bit 8 a AND mask k"
  proof (rule bit_word_eqI)
    fix n assume "n < LENGTH(16)"
    have "n < k" if "bit a (8 + n)"
      using high_bits_clear [OF a that] by simp
    with k show "bit (drop_bit 8 a AND mask 3) n \<longleftrightarrow> bit (drop_bit 8 a AND mask k) n"
      by (auto simp add: bit_and_iff bit_mask_iff bit_drop_bit_eq)
  qed
  finally show ?thesis .
qed

lemma not7: "(0xF8 :: uint8_t) = NOT 0x07"
  by simp

section \<open>The loop of writeN\<close>

lemma chunk_calls_hal [simp]: "chunk_calls (s\<lparr>hal := h\<rparr>) = chunk_calls s"
proof (intro ext)
  fix address vals and c :: "nat \<times> nat"
  show "chunk_calls (s\<lparr>hal := h\<rparr>) address vals c = chunk_calls s address vals c"
    by (cases c) simp
qed

lemma writeN_loop_done:
  "\<not> i < pages_req \<Longrightarrow> writeN_loop s address vals len ps pages_req i bytes_sent offset = s"
  by (simp add: writeN_loop.simps)

lemma writeN_loop_pass:
  fixes len bytes_sent :: uint16_t and ps offset :: uint8_t
  assumes lt: "i < pages_req"
    and off: "unat offset < unat ps"
    and sent: "unat bytes_sent \<le> unat len"
  defines "n \<equiv> min (unat ps - unat offset) (unat len - unat bytes_sent)"
  shows "writeN_loop s address vals len ps pages_req i bytes_sent offset =
         writeN_loop (s\<lparr>hal := hal s @ chunk_calls s address vals (unat address + unat bytes_sent, n)\<rparr>)
           address vals len ps pages_req (i + 1) (bytes_sent + of_nat n) 0"
proof -
  have chunk: "(if uint ps - uint offset < uint len - uint bytes_sent
               then uint ps - uint offset else uint len - uint bytes_sent) = int n"
    unfolding n_def using min_int_nat [OF off sent] by (simp only: uint_nat)
  have sum: "uint address + uint bytes_sent = int (unat address + unat bytes_sent)"
    by (simp only: uint_nat of_nat_add)
  have next_sent: "u16 (uint bytes_sent + uint (u8 (int n))) = bytes_sent + of_nat n"
  proof -
    have "n < 256" using off unfolding n_def
      using unsigned_less [of ps, where 'a = nat] by simp
    then have "int n mod 2 ^ LENGTH(8) = int n"
      by simp
    then have "uint (u8 (int n)) = int n"
      by (simp only: uint_word_of_int)
    then show ?thesis by simp
  qed
  show ?thesis
    apply (subst writeN_loop.simps)
    apply (simp only: lt if_True Let_def chunk sum next_sent)
    apply (simp add: emit_def)
    done
qed

text \<open>
  \<open>k\<close> more passes of the loop make the calls of the next \<open>k\<close> chunks of the
  algorithm, provided the loop variables are in range.
\<close>

lemma writeN_loop_trace:
  fixes len bytes_sent :: uint16_t and ps offset :: uint8_t
  assumes "unat pages_req - unat i = k"
    and "unat offset < unat ps"
    and "unat bytes_sent \<le> unat len"
  shows "writeN_loop s address vals len ps pages_req i bytes_sent offset =
         s\<lparr>hal := hal s @ concat (map (chunk_calls s address vals)
                (spec_chunks_from k (unat ps) (unat address) (unat len)
                   (unat bytes_sent) (unat offset)))\<rparr>"
  using assms
proof (induction k arbitrary: s i bytes_sent offset)
  case 0
  then have "\<not> i < pages_req"
    by (simp add: word_less_nat_alt)
  then show ?case
    by (simp add: writeN_loop_done)
next
  case (Suc k)
  define n where "n = min (unat ps - unat offset) (unat len - unat bytes_sent)"
  define s' where
    "s' = s\<lparr>hal := hal s @ chunk_calls s address vals (unat address + unat bytes_sent, n)\<rparr>"
  from Suc.prems(1) have lt: "i < pages_req"
    by (simp add: word_less_nat_alt)
  have i': "unat pages_req - unat (i + 1) = k"
    using Suc.prems(1) word_succ_unat [OF lt] by simp
  have "unat bytes_sent + n \<le> unat len"
    using Suc.prems(3) by (simp add: n_def)
  then have sent': "unat (bytes_sent + of_nat n) = unat bytes_sent + n"
    by (rule unat_add_of_nat)
  have pos: "unat (0 :: uint8_t) < unat ps"
    using Suc.prems(2) by simp
  have le': "unat (bytes_sent + of_nat n) \<le> unat len"
    using sent' \<open>unat bytes_sent + n \<le> unat len\<close> by simp
  have "writeN_loop s address vals len ps pages_req i bytes_sent offset =
        writeN_loop s' address vals len ps pages_req (i + 1) (bytes_sent + of_nat n) 0"
    unfolding s'_def n_def by (rule writeN_loop_pass [OF lt Suc.prems(2) Suc.prems(3)])
  also have "\<dots> = s'\<lparr>hal := hal s' @ concat (map (chunk_calls s' address vals)
                (spec_chunks_from k (unat ps) (unat address) (unat len)
                   (unat (bytes_sent + of_nat n)) (unat (0 :: uint8_t))))\<rparr>"
    by (rule Suc.IH [OF i' pos le'])
  also have "\<dots> = s\<lparr>hal := hal s @ concat (map (chunk_calls s address vals)
                (spec_chunks_from (Suc k) (unat ps) (unat address) (unat len)
                   (unat bytes_sent) (unat offset)))\<rparr>"
    by (simp add: s'_def sent' [unfolded n_def] n_def Let_def del: chunk_calls.simps)
  finally show ?case .
qed

section \<open>Properties of the chunk plan\<close>

lemma length_spec_chunks_from [simp]:
  "length (spec_chunks_from k eps address len bytes_sent offset) = k"
  by (induction k arbitrary: bytes_sent offset) (simp_all add: Let_def)

lemma ceiling_nat_div:
  fixes m eps :: nat
  assumes "0 < eps"
  shows "int ((m + eps - 1) div eps) = \<lceil>real m / real eps\<rceil>"
proof (cases m)
  case 0
  with assms show ?thesis by simp
next
  case (Suc m')
  define q where "q = m' div eps"
  define r where "r = m' mod eps"
  have m': "m' = q * eps + r"
    by (simp add: q_def r_def)
  have r: "r < eps"
    using assms by (simp add: r_def)
  have "(m + eps - 1) div eps = (m' + eps) div eps"
    using Suc by simp
  also have "\<dots> = q + 1"
    using assms by (simp add: q_def)
  finally have lhs: "int ((m + eps - 1) div eps) = int q + 1"
    by simp
  have pos: "0 < real eps"
    using assms by simp
  have "real q * real eps < real m"
    unfolding Suc m' by (simp flip: of_nat_mult of_nat_add add: less_Suc_eq_le)
  then have lower: "real_of_int (int q) < real m / real eps"
    using pos by (simp add: pos_less_divide_eq)
  have "m \<le> (q + 1) * eps"
    unfolding Suc m' using r by simp
  then have "real m \<le> (real q + 1) * real eps"
    by (metis of_nat_le_iff of_nat_mult of_nat_add of_nat_1)
  then have upper: "real m / real eps \<le> real_of_int (int q) + 1"
    using pos by (simp add: pos_divide_le_eq)
  show ?thesis
    unfolding lhs using lower upper by (rule ceiling_eq [symmetric])
qed

lemma spec_chunk_count_ceiling:
  assumes "0 < eps"
  shows "int (spec_chunk_count eps address len)
         = \<lceil>real (len + address mod eps) / real eps\<rceil>"
  unfolding spec_chunk_count_def by (rule ceiling_nat_div [OF assms])

lemma spec_chunks_from_cover:
  assumes "offset < eps" "bytes_sent \<le> len"
  shows "concat (map chunk_range (spec_chunks_from k eps address len bytes_sent offset))
         = [address + bytes_sent ..< address + min len (bytes_sent + (k * eps - offset))]"
  using assms
proof (induction k arbitrary: bytes_sent offset)
  case 0
  then show ?case by simp
next
  case (Suc k)
  define n where "n = min (eps - offset) (len - bytes_sent)"
  have pos: "0 < eps" and le: "bytes_sent + n \<le> len"
    using Suc.prems by (simp_all add: n_def)
  have rest: "concat (map chunk_range (spec_chunks_from k eps address len (bytes_sent + n) 0))
        = [address + (bytes_sent + n) ..< address + min len (bytes_sent + n + (k * eps - 0))]"
    by (rule Suc.IH [OF pos le])
  have end_eq: "min len (bytes_sent + n + k * eps) = min len (bytes_sent + (Suc k * eps - offset))"
  proof (cases "eps - offset \<le> len - bytes_sent")
    case True
    then have "n = eps - offset" by (simp add: n_def)
    then show ?thesis using Suc.prems(1) by simp
  next
    case False
    then have n: "n = len - bytes_sent" by (simp add: n_def)
    have "len < bytes_sent + (eps - offset)"
      using False Suc.prems(2) by linarith
    also have "\<dots> \<le> bytes_sent + (Suc k * eps - offset)"
      by simp
    finally show ?thesis using n Suc.prems(2) by simp
  qed
  have "bytes_sent + n \<le> min len (bytes_sent + n + k * eps)"
    using le by simp
  then obtain d where d: "min len (bytes_sent + n + k * eps) = bytes_sent + n + d"
    using le_Suc_ex by blast
  have "concat (map chunk_range (spec_chunks_from (Suc k) eps address len bytes_sent offset))
        = [address + bytes_sent ..< address + bytes_sent + n]
          @ [address + bytes_sent + n ..< address + bytes_sent + n + d]"
    using rest d by (simp add: Let_def n_def [symmetric] add.assoc)
  also have "\<dots> = [address + bytes_sent ..< address + bytes_sent + n + d]"
    by (rule upt_add_eq_append [symmetric]) simp
  also have "address + bytes_sent + n + d = address + min len (bytes_sent + (Suc k * eps - offset))"
    using d end_eq by simp
  finally show ?case .
qed

lemma spec_chunks_from_nth:
  assumes "j < k"
  shows "spec_chunks_from k eps address len bytes_sent offset ! j
         = (address + (bytes_sent
                + sum_list (map snd (take j (spec_chunks_from k eps address len bytes_sent offset)))),
            min (eps - (if j = 0 then offset else 0))
                (len - (bytes_sent
                + sum_list (map snd (take j (spec_chunks_from k eps address len bytes_sent offset))))))"
  using assms
proof (induction k arbitrary: j bytes_sent offset)
  case 0
  then show ?case by simp
next
  case (Suc k)
  show ?case
  proof (cases j)
    case 0
    then show ?thesis by (simp add: Let_def)
  next
    case (Suc j')
    with Suc.prems have "j' < k" by simp
    from Suc.IH [OF this, of "bytes_sent + min (eps - offset) (len - bytes_sent)" 0]
    show ?thesis
      unfolding Suc by (simp add: Let_def add.assoc)
  qed
qed

lemma spec_chunks_from_positive:
  assumes "offset < eps"
    and "k = 0 \<or> bytes_sent + ((k - 1) * eps - offset) < len"
    and "c \<in> set (spec_chunks_from k eps address len bytes_sent offset)"
  shows "0 < snd c"
  using assms
proof (induction k arbitrary: bytes_sent offset)
  case 0
  then show ?case by simp
next
  case (Suc k)
  define n where "n = min (eps - offset) (len - bytes_sent)"
  from Suc.prems(2) have lt: "bytes_sent < len"
    by simp
  with Suc.prems(1) have n_pos: "0 < n"
    by (simp add: n_def)
  from Suc.prems(3) consider "c = (address + bytes_sent, n)"
    | "c \<in> set (spec_chunks_from k eps address len (bytes_sent + n) 0)"
    by (auto simp add: Let_def n_def)
  then show ?case
  proof cases
    case 1
    with n_pos show ?thesis by simp
  next
    case 2
    have pos: "0 < eps" using Suc.prems(1) by simp
    have "k = 0 \<or> bytes_sent + n + ((k - 1) * eps - 0) < len"
    proof (cases k)
      case 0
      then show ?thesis by simp
    next
      case (Suc k')
      have "n \<le> eps - offset" by (simp add: n_def)
      moreover have "bytes_sent + (eps + k' * eps - offset) < len"
        using Suc.prems(2) Suc by simp
      ultimately have "bytes_sent + n + k' * eps < len"
        using Suc.prems(1) by linarith
      then show ?thesis using Suc by simp
    qed
    from Suc.IH [OF pos this 2] show ?thesis .
  qed
qed

section \<open>Accepted writes\<close>

lemma writeN_accepted:
  assumes init: "mode s \<noteq> 0"
    and range: "uint address + uint len \<le> uint (chip_size s)"
    and ps: "write_page_size s len \<noteq> 0"
  shows "writeN s address vals len =
         Inr (True, s\<lparr>hal := hal s @ concat (map (chunk_calls s address vals)
           (spec_chunks_from (unat (pages_req_of (write_page_size s len) address len))
              (unat (write_page_size s len)) (unat address) (unat len) 0
              (unat address mod unat (write_page_size s len))))\<rparr>)"
proof -
  define P where "P = write_page_size s len"
  define offset where "offset = u8 (uint address smod uint P)"
  define pages_req where "pages_req = pages_req_of P address len"
  have guard: "mode s \<noteq> 0 \<and> u32 (uint address + uint len) \<le> chip_size s"
    using init range by (simp only: range_check simp_thms)
  have P0: "P \<noteq> 0"
    unfolding P_def by (rule ps)
  have w: "writeN s address vals len =
           Inr (True, writeN_loop s address vals len P pages_req 0 0 offset)"
    unfolding writeN_def pages_req_def pages_req_of_def offset_def
    using guard P0 by (simp only: if_True if_False Let_def P_def [symmetric] simp_thms)
  have off: "unat offset = unat address mod unat P"
    unfolding offset_def by (rule offset_value [OF P0])
  have "0 < unat P"
    using P0 by (simp add: unat_gt_0)
  then have lt: "unat offset < unat P"
    unfolding off by simp
  have k: "unat pages_req - unat (0 :: uint16_t) = unat pages_req"
    by simp
  have sent: "unat (0 :: uint16_t) \<le> unat len"
    by simp
  have "writeN_loop s address vals len P pages_req 0 0 offset =
        s\<lparr>hal := hal s @ concat (map (chunk_calls s address vals)
           (spec_chunks_from (unat pages_req) (unat P) (unat address) (unat len)
              (unat (0 :: uint16_t)) (unat offset)))\<rparr>"
    by (rule writeN_loop_trace [OF k lt sent])
  then show ?thesis
    unfolding w off by (simp only: pages_req_def P_def unat_0)
qed

lemma pages_req_of_pos:
  assumes ps: "ps \<noteq> 0" and pos: "0 < unat len + unat address mod unat ps"
  shows "unat (pages_req_of ps address len) = spec_chunk_count (unat ps) (unat address) (unat len)"
proof -
  define offset where "offset = u8 (uint address smod uint ps)"
  have off: "unat offset = unat address mod unat ps"
    unfolding offset_def by (rule offset_value [OF ps])
  have "0 < unat ps"
    using ps by (simp add: unat_gt_0)
  then have lt: "unat offset < unat ps"
    unfolding off by simp
  have pos': "0 < unat len + unat offset"
    using pos by (simp only: off)
  show ?thesis
    unfolding pages_req_of_def spec_chunk_count_def offset_def [symmetric]
    using pages_req_value [OF lt pos'] by (simp only: off)
qed

lemma minus_one_sdiv:
  fixes l :: int
  assumes "1 < l"
  shows "(- 1) sdiv l = 0"
  using assms by (simp add: signed_divide_int_def)

lemma pages_req_of_zero:
  assumes "1 < ps"
  shows "unat (pages_req_of ps address 0) = 1"
proof (cases "unat address mod unat ps = 0")
  case True
  have ps: "ps \<noteq> 0" using assms by auto
  define offset where "offset = u8 (uint address smod uint ps)"
  have "unat offset = 0"
    unfolding offset_def using offset_value [OF ps, of address] True by simp
  then have offset: "offset = 0"
    by (simp only: unat_eq_0)
  have "uint (1 :: uint8_t) < uint ps"
    using assms by (simp only: word_less_def)
  then have "(- 1) sdiv uint ps = 0"
    by (intro minus_one_sdiv) simp
  then show ?thesis
    unfolding pages_req_of_def offset_def [symmetric] offset by simp
next
  case False
  have ps: "ps \<noteq> 0" using assms by auto
  have pos: "0 < unat (0 :: uint16_t) + unat address mod unat ps"
    using False by simp
  have "0 < unat ps"
    using ps by (simp add: unat_gt_0)
  then have "unat address mod unat ps < unat ps"
    by simp
  then have "(unat address mod unat ps + unat ps - 1) div unat ps = 1"
    using False by (intro div_nat_eqI) simp_all
  then show ?thesis
    using pages_req_of_pos [OF ps pos] by (simp add: spec_chunk_count_def)
qed

lemma writeN_accepted_plan:
  assumes init: "mode s \<noteq> 0"
    and range: "uint address + uint len \<le> uint (chip_size s)"
    and ps: "write_page_size s len \<noteq> 0"
    and pos: "0 < unat len + unat address mod unat (write_page_size s len)"
  shows "writeN s address vals len =
         Inr (True, s\<lparr>hal := hal s @ concat (map (chunk_calls s address vals)
           (spec_chunks (unat (write_page_size s len)) (unat address) (unat len)))\<rparr>)"
  unfolding spec_chunks_def pages_req_of_pos [OF ps pos, symmetric]
  by (rule writeN_accepted [OF init range ps])

text \<open>
  An accepted write, other than a write of no bytes at an address that is a multiple of
  the page size in use, makes the calls of the chunks of the plan, one after the other;
  the plan has \<open>ceil ((length + offset) / eps)\<close> chunks, each starts where the one
  before ended, and together they cover the addresses of the request.
\<close>

lemma writeN_chunking:
  assumes init: "mode s \<noteq> 0"
    and range: "uint address + uint len \<le> uint (chip_size s)"
    and ps: "write_page_size s len \<noteq> 0"
    and pos: "0 < unat len + unat address mod unat (write_page_size s len)"
  shows "(let eps = unat (write_page_size s len);
              offset = unat address mod eps;
              cs = spec_chunks eps (unat address) (unat len)
          in writeN s address vals len =
               Inr (True, s\<lparr>hal := hal s @ concat (map (chunk_calls s address vals) cs)\<rparr>)
           \<and> int (length cs) = \<lceil>real (unat len + offset) / real eps\<rceil>
           \<and> (\<forall>j < length cs.
                  cs ! j = (unat address + sum_list (map snd (take j cs)),
                            min (eps - (if j = 0 then offset else 0))
                                (unat len - sum_list (map snd (take j cs)))))
           \<and> concat (map chunk_range cs) = [unat address ..< unat address + unat len]
           \<and> (0 < len \<longrightarrow> (\<forall>c \<in> set cs. 0 < snd c)))"
proof -
  define eps where "eps = unat (write_page_size s len)"
  define offset where "offset = unat address mod eps"
  define k where "k = spec_chunk_count eps (unat address) (unat len)"
  define cs where "cs = spec_chunks eps (unat address) (unat len)"
  have cs: "cs = spec_chunks_from k eps (unat address) (unat len) 0 offset"
    by (simp only: cs_def spec_chunks_def k_def offset_def)
  have eps: "0 < eps"
    using ps by (simp add: eps_def unat_gt_0)
  then have off: "offset < eps"
    by (simp add: offset_def)
  have k: "k = (unat len + offset + eps - 1) div eps"
    by (simp only: k_def spec_chunk_count_def offset_def)
  have len_cs: "length cs = k"
    by (simp only: cs length_spec_chunks_from)
  have 1: "writeN s address vals len =
           Inr (True, s\<lparr>hal := hal s @ concat (map (chunk_calls s address vals) cs)\<rparr>)"
    unfolding cs_def eps_def by (rule writeN_accepted_plan [OF init range ps pos])
  have 2: "int (length cs) = \<lceil>real (unat len + offset) / real eps\<rceil>"
    unfolding len_cs k_def offset_def by (rule spec_chunk_count_ceiling [OF eps])
  have 3: "cs ! j = (unat address + sum_list (map snd (take j cs)),
                     min (eps - (if j = 0 then offset else 0))
                         (unat len - sum_list (map snd (take j cs))))"
    if "j < length cs" for j
    using spec_chunks_from_nth [of j k eps "unat address" "unat len" 0 offset] that
    unfolding len_cs cs by simp
  have upper: "unat len + offset \<le> k * eps"
  proof -
    have "unat len + offset + eps - 1 < (unat len + offset + eps - 1) div eps * eps + eps"
      using eps by (metis add.commute div_mult_mod_eq add_less_cancel_left mod_less_divisor mult.commute)
    then show ?thesis
      unfolding k using pos [folded eps_def offset_def] by linarith
  qed
  have "concat (map chunk_range cs)
        = [unat address + 0 ..< unat address + min (unat len) (0 + (k * eps - offset))]"
    unfolding cs by (rule spec_chunks_from_cover [OF off]) simp
  moreover have "min (unat len) (0 + (k * eps - offset)) = unat len"
    using upper by simp
  ultimately have 4: "concat (map chunk_range cs) = [unat address ..< unat address + unat len]"
    by simp
  have 5: "0 < snd c" if len: "0 < len" and c: "c \<in> set cs" for c
  proof -
    have "k * eps \<le> unat len + offset + eps - 1"
      unfolding k by simp
    moreover have "0 < unat len"
      using len by (simp add: unat_gt_0)
    moreover have "k = 0 \<or> k * eps = (k - 1) * eps + eps"
      by (cases k) simp_all
    ultimately have "k = 0 \<or> 0 + ((k - 1) * eps - offset) < unat len"
      using off by auto
    from spec_chunks_from_positive [OF off this c [unfolded cs]] show ?thesis .
  qed
  show ?thesis
    unfolding Let_def eps_def [symmetric] offset_def [symmetric] cs_def [symmetric]
    using 1 2 3 4 5 by blast
qed

section \<open>Accepted reads and single chunks\<close>

lemma chunk_calls_word:
  fixes la :: uint16_t
  shows "chunk_calls s address vals (unat la, n) =
     (if addr_ov_bits s \<noteq> 0
      then [I2C_setAddress ((chip_addr s AND 0xF8) OR ucast (drop_bit 8 (la AND 0x0700)))]
      else [])
     @ [if 1 < addr_bytes s
        then I2C_write16 la (Buf vals (unat la - unat address)) (of_nat n)
        else I2C_write8 (ucast la) (Buf vals (unat la - unat address)) (of_nat n)]
     @ [delay_ms EEPROM_WRITE_CYCLE_TIME_MS]"
proof -
  have "int (unat la) = uint la"
    by simp
  then have "u8 ((uint (chip_addr s) AND 0xF8) OR drop_bit 8 (int (unat la) AND 0x0700))
        = (chip_addr s AND 0xF8) OR ucast (drop_bit 8 (la AND 0x0700))"
    by (simp only: folded_word)
  then show ?thesis
    by (simp only: chunk_calls.simps) simp
qed

lemma readN_accepted:
  assumes init: "mode s \<noteq> 0"
    and range: "uint address + uint len \<le> uint (chip_size s)"
  shows "readN s address len =
         (True, s\<lparr>hal := hal s @
            (if addr_ov_bits s \<noteq> 0
             then [I2C_setAddress ((chip_addr s AND 0xF8) OR ucast (drop_bit 8 (address AND 0x0700)))]
             else [])
            @ [if 1 < addr_bytes s then I2C_writeRead16 address len
               else I2C_writeRead8 (ucast address) len]\<rparr>)"
proof -
  have guard: "mode s \<noteq> 0 \<and> u32 (uint address + uint len) \<le> chip_size s"
    using init range by (simp only: range_check simp_thms)
  have fold: "u8 ((uint (chip_addr s) AND 0xF8) OR drop_bit 8 ((uint address + 0) AND 0x0700))
        = (chip_addr s AND 0xF8) OR ucast (drop_bit 8 (address AND 0x0700))"
    by (simp only: add_0_right folded_word)
  show ?thesis
    unfolding readN_def using guard
    by (simp only: if_True fold Let_def) (simp add: emit_def)
qed

lemma zero_length_general:
  assumes init: "mode s \<noteq> 0"
    and range: "uint address \<le> uint (chip_size s)"
    and page: "1 < page_size s"
  shows "writeN s address vals 0 =
         Inr (True, s\<lparr>hal := hal s @
            (if addr_ov_bits s \<noteq> 0
             then [I2C_setAddress ((chip_addr s AND 0xF8) OR ucast (drop_bit 8 (address AND 0x0700)))]
             else [])
            @ [if 1 < addr_bytes s then I2C_write16 address (Buf vals 0) 0
               else I2C_write8 (ucast address) (Buf vals 0) 0,
               delay_ms EEPROM_WRITE_CYCLE_TIME_MS]\<rparr>)
       \<and> readN s address 0 =
         (True, s\<lparr>hal := hal s @
            (if addr_ov_bits s \<noteq> 0
             then [I2C_setAddress ((chip_addr s AND 0xF8) OR ucast (drop_bit 8 (address AND 0x0700)))]
             else [])
            @ [if 1 < addr_bytes s then I2C_writeRead16 address 0
               else I2C_writeRead8 (ucast address) 0]\<rparr>)"
proof
  have r: "uint address + uint (0 :: uint16_t) \<le> uint (chip_size s)"
    using range by simp
  have p: "write_page_size s 0 = page_size s"
    by (simp add: write_page_size_def)
  have ps: "write_page_size s 0 \<noteq> 0"
    unfolding p using page by auto
  have one: "unat (pages_req_of (write_page_size s 0) address 0) = 1"
    unfolding p by (rule pages_req_of_zero [OF page])
  have "writeN s address vals 0 =
        Inr (True, s\<lparr>hal := hal s @ chunk_calls s address vals (unat address, 0)\<rparr>)"
    using writeN_accepted [OF init r ps, of vals] unfolding one by simp
  then show "writeN s address vals 0 =
         Inr (True, s\<lparr>hal := hal s @
            (if addr_ov_bits s \<noteq> 0
             then [I2C_setAddress ((chip_addr s AND 0xF8) OR ucast (drop_bit 8 (address AND 0x0700)))]
             else [])
            @ [if 1 < addr_bytes s then I2C_write16 address (Buf vals 0) 0
               else I2C_write8 (ucast address) (Buf vals 0) 0,
               delay_ms EEPROM_WRITE_CYCLE_TIME_MS]\<rparr>)"
    by (simp only: chunk_calls_word) simp
  show "readN s address 0 =
         (True, s\<lparr>hal := hal s @
            (if addr_ov_bits s \<noteq> 0
             then [I2C_setAddress ((chip_addr s AND 0xF8) OR ucast (drop_bit 8 (address AND 0x0700)))]
             else [])
            @ [if 1 < addr_bytes s then I2C_writeRead16 address 0
               else I2C_writeRead8 (ucast address) 0]\<rparr>)"
    by (rule readN_accepted [OF init r])
qed

lemma ucast_low_byte:
  fixes a :: uint16_t
  shows "(ucast a :: uint8_t) = ucast (a AND 0xFF)"
proof -
  have m: "(0xFF :: uint16_t) = mask 8"
    by (simp add: mask_eq_exp_minus_1)
  show ?thesis
    unfolding m by (rule bit_word_eqI) (simp add: bit_simps)
qed

lemma spec_chunks_one_byte:
  assumes "0 < eps"
  shows "spec_chunks eps a (Suc 0) = [(a, Suc 0)]"
proof -
  have "a mod eps < eps"
    using assms by simp
  then have "(Suc 0 + a mod eps + eps - 1) div eps = 1"
    by (intro div_nat_eqI) simp_all
  then have "spec_chunk_count eps a (Suc 0) = Suc 0"
    by (simp add: spec_chunk_count_def)
  moreover have "min (eps - a mod eps) (Suc 0) = Suc 0"
    using \<open>a mod eps < eps\<close> by simp
  ultimately show ?thesis
    by (simp add: spec_chunks_def Let_def)
qed

lemma folded_translation_general:
  assumes init: "mode s \<noteq> 0"
    and k: "addr_ov_bits s \<noteq> 0" "unat (addr_ov_bits s) \<le> 3"
    and one: "addr_bytes s \<le> 1"
    and cap: "uint (chip_size s) \<le> 2 ^ (8 + unat (addr_ov_bits s))"
    and a: "uint address < uint (chip_size s)"
    and page: "page_size s \<noteq> 0"
  shows "write_byte s address val =
           Inr (True, s\<lparr>hal := hal s @
             [I2C_setAddress ((chip_addr s AND NOT 0x07)
                 OR ucast (drop_bit 8 address AND mask (unat (addr_ov_bits s)))),
              I2C_write8 (ucast (address AND 0xFF)) (Buf [val] 0) 1,
              delay_ms EEPROM_WRITE_CYCLE_TIME_MS]\<rparr>)
       \<and> (uint address + uint len \<le> uint (chip_size s) \<longrightarrow>
            readN s address len =
              (True, s\<lparr>hal := hal s @
                [I2C_setAddress ((chip_addr s AND NOT 0x07)
                    OR ucast (drop_bit 8 address AND mask (unat (addr_ov_bits s)))),
                 I2C_writeRead8 (ucast (address AND 0xFF)) len]\<rparr>))"
proof (intro conjI impI)
  have bound: "uint address < 2 ^ (8 + unat (addr_ov_bits s))"
    using a cap by linarith
  have fold: "(chip_addr s AND 0xF8) OR ucast (drop_bit 8 (address AND 0x0700))
        = (chip_addr s AND NOT 0x07)
            OR ucast (drop_bit 8 address AND mask (unat (addr_ov_bits s)))"
    by (simp only: folded_bits [OF k(2) bound] not7)
  have width: "\<not> 1 < addr_bytes s"
    using one by (simp add: not_less)
  have r: "uint address + uint (1 :: uint16_t) \<le> uint (chip_size s)"
    using a by simp
  have p: "write_page_size s 1 = page_size s"
    by (simp add: write_page_size_def)
  have ps: "write_page_size s 1 \<noteq> 0"
    unfolding p by (rule page)
  have pos: "0 < unat (1 :: uint16_t) + unat address mod unat (write_page_size s 1)"
    by simp
  have eps: "0 < unat (page_size s)"
    using page by (simp add: unat_gt_0)
  have "writeN s address [val] 1 =
        Inr (True, s\<lparr>hal := hal s @ chunk_calls s address [val] (unat address, 1)\<rparr>)"
    using writeN_accepted_plan [OF init r ps pos, of "[val]"]
    unfolding p by (simp add: spec_chunks_one_byte [OF eps] del: chunk_calls.simps)
  then show "write_byte s address val =
           Inr (True, s\<lparr>hal := hal s @
             [I2C_setAddress ((chip_addr s AND NOT 0x07)
                 OR ucast (drop_bit 8 address AND mask (unat (addr_ov_bits s)))),
              I2C_write8 (ucast (address AND 0xFF)) (Buf [val] 0) 1,
              delay_ms EEPROM_WRITE_CYCLE_TIME_MS]\<rparr>)"
    unfolding write_byte_def
    by (simp only: chunk_calls_word fold k(1) width ucast_low_byte [symmetric]) simp
next
  assume r: "uint address + uint len \<le> uint (chip_size s)"
  have bound: "uint address < 2 ^ (8 + unat (addr_ov_bits s))"
    using a cap by linarith
  have fold: "(chip_addr s AND 0xF8) OR ucast (drop_bit 8 (address AND 0x0700))
        = (chip_addr s AND NOT 0x07)
            OR ucast (drop_bit 8 address AND mask (unat (addr_ov_bits s)))"
    by (simp only: folded_bits [OF k(2) bound] not7)
  have width: "\<not> 1 < addr_bytes s"
    using one by (simp add: not_less)
  show "readN s address len =
              (True, s\<lparr>hal := hal s @
                [I2C_setAddress ((chip_addr s AND NOT 0x07)
                    OR ucast (drop_bit 8 address AND mask (unat (addr_ov_bits s)))),
                 I2C_writeRead8 (ucast (address AND 0xFF)) len]\<rparr>)"
    by (simp only: readN_accepted [OF init r] fold k(1) width ucast_low_byte [symmetric]) simp
qed

section \<open>Requests out of range\<close>

lemma writeN_rejects:
  assumes "uint (chip_size s) < uint address + uint len"
  shows "writeN s address vals len = Inr (False, s)"
  using assms unfolding writeN_def range_check by simp

lemma readN_rejects:
  assumes "uint (chip_size s) < uint address + uint len"
  shows "readN s address len = (False, s)"
  using assms unfolding readN_def range_check by simp

section \<open>Initialized devices of the chip table\<close>

lemma uint_not_minus_one: "uint w \<noteq> - 1"
proof
  assume "uint w = - 1"
  moreover have "0 \<le> uint w"
    by (rule uint_ge_0)
  ultimately show False by linarith
qed

lemma init_always_mode_2:
  "init s = (emit (GPIO_digitalWrite False) (emit GPIO_pinMode_OUTPUT (emit I2C_init s)))
              \<lparr>mode := 2\<rparr>"
  unfolding init_def Let_def using uint_not_minus_one [of "mode (emit I2C_init s)"]
  by (simp only: if_True simp_thms)

lemma initialized_device_fields:
  "mode (initialized_device chip chip_addr' wp_pin' h) = 2"
  "hal (initialized_device chip chip_addr' wp_pin' h) = h"
  "chip_size (initialized_device chip chip_addr' wp_pin' h) = chip AND 0x0001FFFF"
  "chip_addr (initialized_device chip chip_addr' wp_pin' h) = 0x50 OR (chip_addr' AND 0x07)"
  "page_size (initialized_device chip chip_addr' wp_pin' h)
     = ucast (drop_bit 20 (chip AND 0x0FF00000))"
  "addr_bytes (initialized_device chip chip_addr' wp_pin' h)
     = ucast (drop_bit 28 (chip AND 0x30000000))"
  "addr_ov_bits (initialized_device chip chip_addr' wp_pin' h)
     = ucast (drop_bit 30 (chip AND 0xC0000000))"
  by (simp_all add: initialized_device_def init_always_mode_2 AT24CXX_new_def emit_def
        AT24CXX_ADDR_def)

lemma chip_table_cases:
  assumes "chip \<in> set chip_table"
  obtains "chip = AT24C01" | "chip = AT24C02" | "chip = AT24C04" | "chip = AT24C08"
    | "chip = AT24C16" | "chip = AT24C32" | "chip = AT24C64" | "chip = AT24C128"
    | "chip = AT24C256" | "chip = AT24C512"
  using assms unfolding chip_table_def by auto

lemma table_device:
  assumes chip: "chip \<in> set chip_table"
    and s: "s = initialized_device chip chip_addr' wp_pin' h"
  shows "mode s \<noteq> 0"
    and "1 < page_size s"
    and "page_size s \<noteq> 0"
    and "write_page_size s len \<noteq> 0"
    and "addr_ov_bits s \<noteq> 0 \<Longrightarrow>
           unat (addr_ov_bits s) \<le> 3 \<and> addr_bytes s = 1
           \<and> uint (chip_size s) \<le> 2 ^ (8 + unat (addr_ov_bits s))"
proof -
  show "mode s \<noteq> 0"
    by (simp add: s initialized_device_fields)
  show 1: "1 < page_size s"
    using chip unfolding s
    by (cases rule: chip_table_cases) (simp_all add: initialized_device_fields chip_defs)
  then show 2: "page_size s \<noteq> 0"
    by auto
  then show "write_page_size s len \<noteq> 0"
    by (simp add: write_page_size_def)
  show "unat (addr_ov_bits s) \<le> 3 \<and> addr_bytes s = 1
           \<and> uint (chip_size s) \<le> 2 ^ (8 + unat (addr_ov_bits s))"
    if "addr_ov_bits s \<noteq> 0"
    using chip that unfolding s
    by (cases rule: chip_table_cases) (simp_all add: initialized_device_fields chip_defs)
qed

lemma initialized_device_after_init:
  "initialized_device chip chip_addr' wp_pin' [I2C_init, GPIO_pinMode_OUTPUT, GPIO_digitalWrite False]
   = init (AT24CXX_new chip chip_addr' wp_pin')"
  by (simp add: initialized_device_def init_always_mode_2 AT24CXX_new_def emit_def)

lemma initialized_device_hal:
  "(initialized_device chip chip_addr' wp_pin' h)\<lparr>hal := h'\<rparr>
   = initialized_device chip chip_addr' wp_pin' h'"
  by (simp add: initialized_device_def)

text \<open>
  Every operation of the driver takes an initialized device to an initialized device of
  the same constructor arguments, with a longer or equal log.
\<close>

lemma initialized_device_closed:
  fixes chip :: uint32_t and chip_addr' wp_pin' :: uint8_t
  defines "dev \<equiv> initialized_device chip chip_addr' wp_pin'"
  shows "\<exists>h'. init (dev h) = dev h'"
    and "\<exists>h'. setWriteProtect (dev h) = dev h'"
    and "\<exists>h'. clearWriteProtect (dev h) = dev h'"
    and "\<exists>h'. snd (readN (dev h) address len) = dev h'"
    and "writeN (dev h) address vals len = Inr (ok, s') \<Longrightarrow> \<exists>h'. s' = dev h'"
proof -
  show "\<exists>h'. init (dev h) = dev h'"
    by (rule exI [of _ "h @ [I2C_init, GPIO_pinMode_OUTPUT, GPIO_digitalWrite False]"])
      (simp add: dev_def initialized_device_def init_always_mode_2 emit_def)
  show "\<exists>h'. setWriteProtect (dev h) = dev h'"
    by (rule exI [of _ "h @ [GPIO_digitalWrite True]"])
      (simp add: dev_def setWriteProtect_def emit_def initialized_device_fields
         initialized_device_hal)
  show "\<exists>h'. clearWriteProtect (dev h) = dev h'"
    by (rule exI [of _ "h @ [GPIO_digitalWrite False]"])
      (simp add: dev_def clearWriteProtect_def emit_def initialized_device_fields
         initialized_device_hal)
  show "\<exists>h'. snd (readN (dev h) address len) = dev h'"
  proof (cases "uint address + uint len \<le> uint (chip_size (dev h))")
    case True
    have "mode (dev h) \<noteq> 0"
      by (simp add: dev_def initialized_device_fields)
    from readN_accepted [OF this True]
    obtain h' where "readN (dev h) address len = (True, (dev h)\<lparr>hal := h'\<rparr>)"
      by blast
    then have "snd (readN (dev h) address len) = dev h'"
      by (simp add: dev_def initialized_device_hal)
    then show ?thesis ..
  next
    case False
    then have "readN (dev h) address len = (False, dev h)"
      by (intro readN_rejects) simp
    then show ?thesis by auto
  qed
  show "\<exists>h'. s' = dev h'" if w: "writeN (dev h) address vals len = Inr (ok, s')"
  proof (cases "uint address + uint len \<le> uint (chip_size (dev h))")
    case True
    have m: "mode (dev h) \<noteq> 0"
      by (simp add: dev_def initialized_device_fields)
    have ps: "write_page_size (dev h) len \<noteq> 0"
      using w m True unfolding writeN_def range_check by (auto simp add: Let_def)
    from writeN_accepted [OF m True ps, of vals]
    obtain h' where "writeN (dev h) address vals len = Inr (True, (dev h)\<lparr>hal := h'\<rparr>)"
      by blast
    with w have "s' = dev h'"
      by (simp add: dev_def initialized_device_hal)
    then show ?thesis ..
  next
    case False
    then have "writeN (dev h) address vals len = Inr (False, dev h)"
      by (intro writeN_rejects) simp
    with w show ?thesis by auto
  qed
qed

section \<open>Chunks of a write\<close>

text \<open>
  Claim C1, amended. On an initialized device of any chip of the table, a write with
  \<open>address + length \<le> capacity_bytes\<close>, other than a write of no bytes at an address
  that is a multiple of the page size in use, makes exactly the calls of the chunks of
  the plan, in order. The plan has \<open>ceil ((length + offset) / eps)\<close> chunks, where
  \<open>eps\<close> is the page size in use and \<open>offset = address mod eps\<close>; chunk \<open>j\<close>
  starts at \<open>address\<close> plus the bytes of the chunks before it and has
  \<open>min (eps - offset, length - bytes_sent)\<close> bytes, with the offset 0 after the first
  chunk; the chunks cover the addresses from \<open>address\<close> to \<open>address + length\<close> in
  increasing order, and none is empty when the length is positive.
\<close>

theorem write_chunking:
  assumes chip: "chip \<in> set chip_table"
    and s: "s = initialized_device chip chip_addr' wp_pin' h"
    and range: "uint address + uint len \<le> uint (chip_size s)"
    and pos: "0 < unat len + unat address mod unat (write_page_size s len)"
  shows "(let eps = unat (write_page_size s len);
              offset = unat address mod eps;
              cs = spec_chunks eps (unat address) (unat len)
          in writeN s address vals len =
               Inr (True, s\<lparr>hal := hal s @ concat (map (chunk_calls s address vals) cs)\<rparr>)
           \<and> int (length cs) = \<lceil>real (unat len + offset) / real eps\<rceil>
           \<and> (\<forall>j < length cs.
                  cs ! j = (unat address + sum_list (map snd (take j cs)),
                            min (eps - (if j = 0 then offset else 0))
                                (unat len - sum_list (map snd (take j cs)))))
           \<and> concat (map chunk_range cs) = [unat address ..< unat address + unat len]
           \<and> (0 < len \<longrightarrow> (\<forall>c \<in> set cs. 0 < snd c)))"
  by (rule writeN_chunking [OF table_device(1) [OF chip s] range table_device(4) [OF chip s] pos])

text \<open>
  The instance of the claim: on an AT24C04, whose page size is 16, a write of 2 bytes at
  address 15 is the chunk of 1 byte at 15 followed by the chunk of 1 byte at 16.
\<close>

theorem write_chunking_witness:
  "AT24C04 \<in> set chip_table
   \<and> initialized_device AT24C04 0 255 [I2C_init, GPIO_pinMode_OUTPUT, GPIO_digitalWrite False]
       = init (AT24CXX_new AT24C04 0 255)
   \<and> uint (15 :: uint16_t) + uint (2 :: uint16_t)
       \<le> uint (chip_size (init (AT24CXX_new AT24C04 0 255)))
   \<and> write_page_size (init (AT24CXX_new AT24C04 0 255)) 2 = 16
   \<and> spec_chunks 16 15 2 = [(15, 1), (16, 1)]
   \<and> writeN (init (AT24CXX_new AT24C04 0 255)) 15 [0xAA, 0xBB] 2 =
       Inr (True, (init (AT24CXX_new AT24C04 0 255))
         \<lparr>hal := [I2C_init, GPIO_pinMode_OUTPUT, GPIO_digitalWrite False,
                  I2C_setAddress 0x50, I2C_write8 15 (Buf [0xAA, 0xBB] 0) 1, delay_ms 5,
                  I2C_setAddress 0x50, I2C_write8 16 (Buf [0xAA, 0xBB] 1) 1, delay_ms 5]\<rparr>)"
proof -
  let ?h = "[I2C_init, GPIO_pinMode_OUTPUT, GPIO_digitalWrite False]"
  let ?s = "initialized_device AT24C04 0 255 ?h"
  have chip: "AT24C04 \<in> set chip_table"
    by (simp add: chip_table_def)
  have s: "?s = init (AT24CXX_new AT24C04 0 255)"
    by (rule initialized_device_after_init)
  have fields: "chip_size ?s = 512" "page_size ?s = 16" "addr_bytes ?s = 1"
    "addr_ov_bits ?s = 1" "chip_addr ?s = 0x50" "hal ?s = ?h"
    by (simp_all add: initialized_device_fields AT24C04_def)
  have r: "uint (15 :: uint16_t) + uint (2 :: uint16_t) \<le> uint (chip_size ?s)"
    by (simp add: fields)
  have p: "write_page_size ?s 2 = 16"
    by (simp add: write_page_size_def fields)
  have pos: "0 < unat (2 :: uint16_t) + unat (15 :: uint16_t) mod unat (write_page_size ?s 2)"
    by (simp add: p)
  have plan: "spec_chunks 16 15 2 = [(15, 1), (16, 1)]"
    by (simp add: spec_chunks_def spec_chunk_count_def numeral_2_eq_2 Let_def)
  have "writeN ?s 15 [0xAA, 0xBB] 2 =
        Inr (True, ?s\<lparr>hal := hal ?s @ concat (map (chunk_calls ?s 15 [0xAA, 0xBB])
          (spec_chunks (unat (write_page_size ?s 2)) (unat (15 :: uint16_t))
             (unat (2 :: uint16_t))))\<rparr>)"
    using write_chunking [OF chip refl r pos, of "[0xAA, 0xBB]"] unfolding Let_def
    by (rule conjunct1)
  then have "writeN ?s 15 [0xAA, 0xBB] 2 =
        Inr (True, ?s\<lparr>hal := [I2C_init, GPIO_pinMode_OUTPUT, GPIO_digitalWrite False,
                  I2C_setAddress 0x50, I2C_write8 15 (Buf [0xAA, 0xBB] 0) 1, delay_ms 5,
                  I2C_setAddress 0x50, I2C_write8 16 (Buf [0xAA, 0xBB] 1) 1, delay_ms 5]\<rparr>)"
    by (simp add: p plan fields EEPROM_WRITE_CYCLE_TIME_MS_def)
  with chip r p plan show ?thesis
    unfolding s by (simp only: simp_thms)
qed

text \<open>
  Claim C1 as stated also covers a length of 0. On an AT24C02 a write of no bytes at
  address 0 is accepted and \<open>ceil ((0 + 0) / 8) = 0\<close>, so the plan is empty, yet the
  driver makes one bus write of length 0 and waits: \<^verbatim>\<open>(len + offset - 1) / page_size + 1\<close>
  is 1 there, since \<open>-1 / 8\<close> truncates to 0.
\<close>

theorem write_chunking_counterexample:
  "AT24C02 \<in> set chip_table
   \<and> uint (0 :: uint16_t) + uint (0 :: uint16_t)
       \<le> uint (chip_size (init (AT24CXX_new AT24C02 0 255)))
   \<and> write_page_size (init (AT24CXX_new AT24C02 0 255)) 0 = 8
   \<and> \<lceil>real (unat (0 :: uint16_t) + unat (0 :: uint16_t) mod 8) / real 8\<rceil> = 0
   \<and> spec_chunks 8 0 0 = []
   \<and> writeN (init (AT24CXX_new AT24C02 0 255)) 0 [] 0 =
       Inr (True, (init (AT24CXX_new AT24C02 0 255))
         \<lparr>hal := hal (init (AT24CXX_new AT24C02 0 255)) @
            [I2C_write8 0 (Buf [] 0) 0, delay_ms 5]\<rparr>)
   \<and> writeN (init (AT24CXX_new AT24C02 0 255)) 0 [] 0 \<noteq>
       Inr (True, (init (AT24CXX_new AT24C02 0 255))
         \<lparr>hal := hal (init (AT24CXX_new AT24C02 0 255)) @
            concat (map (chunk_calls (init (AT24CXX_new AT24C02 0 255)) 0 [])
                     (spec_chunks 8 0 0))\<rparr>)"
  by (simp add: driver_defs AT24C02_def spec_chunks_def spec_chunk_count_def chip_table_def)

section \<open>Address translation\<close>

text \<open>
  Claim C2, amended. On an initialized device whose profile has \<open>k > 0\<close> overflow
  bits (at most 3), one address byte, and a capacity of at most \<open>256 * 2 ^ k\<close> bytes,
  as AT24C04, AT24C08 and AT24C16 have, for every bus base address and every logical
  address within the capacity, the single-byte write and the read set the bus address to
  \<open>(bus_base_address & ~0x07) | ((logical_address >> 8) & ((1 << k) - 1))\<close> and put
  the single address byte \<open>logical_address & 0xFF\<close> on the wire.
\<close>

theorem folded_address_translation:
  assumes init: "mode s \<noteq> 0"
    and k: "addr_ov_bits s \<noteq> 0" "unat (addr_ov_bits s) \<le> 3"
    and one: "addr_bytes s \<le> 1"
    and page: "page_size s \<noteq> 0"
    and cap: "uint (chip_size s) \<le> 2 ^ (8 + unat (addr_ov_bits s))"
    and a: "uint address < uint (chip_size s)"
  shows "write_byte s address val =
           Inr (True, s\<lparr>hal := hal s @
             [I2C_setAddress ((chip_addr s AND NOT 0x07)
                 OR ucast (drop_bit 8 address AND mask (unat (addr_ov_bits s)))),
              I2C_write8 (ucast (address AND 0xFF)) (Buf [val] 0) 1,
              delay_ms EEPROM_WRITE_CYCLE_TIME_MS]\<rparr>)
       \<and> (uint address + uint len \<le> uint (chip_size s) \<longrightarrow>
            readN s address len =
              (True, s\<lparr>hal := hal s @
                [I2C_setAddress ((chip_addr s AND NOT 0x07)
                    OR ucast (drop_bit 8 address AND mask (unat (addr_ov_bits s)))),
                 I2C_writeRead8 (ucast (address AND 0xFF)) len]\<rparr>))"
  by (rule folded_translation_general [OF init k one cap a page])

text \<open>
  The instance of the claim: AT24C16 (capacity 2048, one address byte, overflow bits),
  bus base address 0x50, logical address 0x300: bus address 0x53, address byte 0x00.
\<close>

theorem folded_address_translation_witness:
  "mode (init (AT24CXX_new AT24C16 0 255)) \<noteq> 0
   \<and> chip_size (init (AT24CXX_new AT24C16 0 255)) = 2048
   \<and> page_size (init (AT24CXX_new AT24C16 0 255)) = 16
   \<and> addr_bytes (init (AT24CXX_new AT24C16 0 255)) = 1
   \<and> addr_ov_bits (init (AT24CXX_new AT24C16 0 255)) = 3
   \<and> chip_addr (init (AT24CXX_new AT24C16 0 255)) = 0x50
   \<and> uint (chip_size (init (AT24CXX_new AT24C16 0 255)))
       \<le> 2 ^ (8 + unat (addr_ov_bits (init (AT24CXX_new AT24C16 0 255))))
   \<and> uint (0x300 :: uint16_t) < uint (chip_size (init (AT24CXX_new AT24C16 0 255)))
   \<and> write_byte (init (AT24CXX_new AT24C16 0 255)) 0x300 0xAB =
       Inr (True, (init (AT24CXX_new AT24C16 0 255))
          \<lparr>hal := [I2C_init, GPIO_pinMode_OUTPUT, GPIO_digitalWrite False,
                   I2C_setAddress 0x53, I2C_write8 0x00 (Buf [0xAB] 0) 1, delay_ms 5]\<rparr>)
   \<and> readN (init (AT24CXX_new AT24C16 0 255)) 0x300 4 =
       (True, (init (AT24CXX_new AT24C16 0 255))
          \<lparr>hal := [I2C_init, GPIO_pinMode_OUTPUT, GPIO_digitalWrite False,
                   I2C_setAddress 0x53, I2C_writeRead8 0x00 4]\<rparr>)"
proof -
  let ?s = "init (AT24CXX_new AT24C16 0 255)"
  have fields: "mode ?s = 2" "chip_size ?s = 2048" "page_size ?s = 16" "addr_bytes ?s = 1"
    "addr_ov_bits ?s = 3" "chip_addr ?s = 0x50"
    "hal ?s = [I2C_init, GPIO_pinMode_OUTPUT, GPIO_digitalWrite False]"
    by (simp_all add: init_always_mode_2 AT24CXX_new_def AT24C16_def emit_def AT24CXX_ADDR_def)
  have m: "mode ?s \<noteq> 0"
    and k: "addr_ov_bits ?s \<noteq> 0" "unat (addr_ov_bits ?s) \<le> 3"
    and one: "addr_bytes ?s \<le> 1"
    and page: "page_size ?s \<noteq> 0"
    and cap: "uint (chip_size ?s) \<le> 2 ^ (8 + unat (addr_ov_bits ?s))"
    and a: "uint (0x300 :: uint16_t) < uint (chip_size ?s)"
    and r: "uint (0x300 :: uint16_t) + uint (4 :: uint16_t) \<le> uint (chip_size ?s)"
    by (simp_all add: fields)
  have mask3: "(mask 3 :: uint16_t) = 7"
    by (simp add: mask_eq_exp_minus_1)
  from folded_address_translation [OF m k one page cap a, of "0xAB" 4] r
  have "write_byte ?s 0x300 0xAB =
       Inr (True, ?s\<lparr>hal := [I2C_init, GPIO_pinMode_OUTPUT, GPIO_digitalWrite False,
                   I2C_setAddress 0x53, I2C_write8 0x00 (Buf [0xAB] 0) 1, delay_ms 5]\<rparr>)
     \<and> readN ?s 0x300 4 =
       (True, ?s\<lparr>hal := [I2C_init, GPIO_pinMode_OUTPUT, GPIO_digitalWrite False,
                   I2C_setAddress 0x53, I2C_writeRead8 0x00 4]\<rparr>)"
    by (simp add: fields mask3 EEPROM_WRITE_CYCLE_TIME_MS_def)
  with m cap a fields(2-6) show ?thesis
    by (simp only: simp_thms)
qed

text \<open>
  Claim C2 as stated covers every profile with \<open>k > 0\<close>. The driver masks the
  address with the constant \<^verbatim>\<open>0x0700\<close> whatever \<open>k\<close> is. For the descriptor with
  capacity 2048, page size 16, one address byte and 2 overflow bits, at the logical
  address 0x400, the formula of the claim gives the bus address 0x50, and the write and
  the read set 0x54.
\<close>

theorem folded_address_translation_counterexample:
  "mode (init (AT24CXX_new (2048 OR push_bit 20 16 OR push_bit 28 1 OR push_bit 30 2) 0 255)) \<noteq> 0
   \<and> chip_size (init (AT24CXX_new (2048 OR push_bit 20 16 OR push_bit 28 1 OR push_bit 30 2) 0 255)) = 2048
   \<and> page_size (init (AT24CXX_new (2048 OR push_bit 20 16 OR push_bit 28 1 OR push_bit 30 2) 0 255)) = 16
   \<and> addr_bytes (init (AT24CXX_new (2048 OR push_bit 20 16 OR push_bit 28 1 OR push_bit 30 2) 0 255)) = 1
   \<and> addr_ov_bits (init (AT24CXX_new (2048 OR push_bit 20 16 OR push_bit 28 1 OR push_bit 30 2) 0 255)) = 2
   \<and> chip_addr (init (AT24CXX_new (2048 OR push_bit 20 16 OR push_bit 28 1 OR push_bit 30 2) 0 255)) = 0x50
   \<and> uint (0x400 :: uint16_t)
       < uint (chip_size (init (AT24CXX_new (2048 OR push_bit 20 16 OR push_bit 28 1 OR push_bit 30 2) 0 255)))
   \<and> ((0x50 :: uint8_t) AND NOT 0x07) OR ucast (drop_bit 8 (0x400 :: uint16_t) AND mask 2) = 0x50
   \<and> write_byte (init (AT24CXX_new (2048 OR push_bit 20 16 OR push_bit 28 1 OR push_bit 30 2) 0 255))
         0x400 0xAB =
       Inr (True, (init (AT24CXX_new (2048 OR push_bit 20 16 OR push_bit 28 1 OR push_bit 30 2) 0 255))
          \<lparr>hal := [I2C_init, GPIO_pinMode_OUTPUT, GPIO_digitalWrite False,
                   I2C_setAddress 0x54, I2C_write8 0x00 (Buf [0xAB] 0) 1, delay_ms 5]\<rparr>)
   \<and> write_byte (init (AT24CXX_new (2048 OR push_bit 20 16 OR push_bit 28 1 OR push_bit 30 2) 0 255)) 0x400 0xAB \<noteq>
       Inr (True, (init (AT24CXX_new (2048 OR push_bit 20 16 OR push_bit 28 1 OR push_bit 30 2) 0 255))
          \<lparr>hal := hal (init (AT24CXX_new (2048 OR push_bit 20 16 OR push_bit 28 1 OR push_bit 30 2) 0 255)) @
             [I2C_setAddress ((chip_addr (init (AT24CXX_new (2048 OR push_bit 20 16 OR push_bit 28 1 OR push_bit 30 2) 0 255)) AND NOT 0x07)
                 OR ucast (drop_bit 8 (0x400 :: uint16_t)
                             AND mask (unat (addr_ov_bits (init (AT24CXX_new (2048 OR push_bit 20 16 OR push_bit 28 1 OR push_bit 30 2) 0 255)))))),
              I2C_write8 (ucast ((0x400 :: uint16_t) AND 0xFF)) (Buf [0xAB] 0) 1,
              delay_ms EEPROM_WRITE_CYCLE_TIME_MS]\<rparr>)
   \<and> readN (init (AT24CXX_new (2048 OR push_bit 20 16 OR push_bit 28 1 OR push_bit 30 2) 0 255))
         0x400 1 =
       (True, (init (AT24CXX_new (2048 OR push_bit 20 16 OR push_bit 28 1 OR push_bit 30 2) 0 255))
          \<lparr>hal := [I2C_init, GPIO_pinMode_OUTPUT, GPIO_digitalWrite False,
                   I2C_setAddress 0x54, I2C_writeRead8 0x00 1]\<rparr>)"
  by (simp add: write_byte_def driver_defs mask_eq_exp_minus_1)

text \<open>
  Claim C6. On an initialized device of a chip of the table with overflow bits, a
  write of at least one byte makes, for each chunk in order, a \<^verbatim>\<open>setAddress\<close> call, then
  the bus write of the chunk, then the delay; the bus address of a chunk is computed from
  the logical address of that chunk, which is the address of the request plus the bytes
  of the chunks written before it.
\<close>

theorem bus_address_per_chunk:
  assumes chip: "chip \<in> set chip_table"
    and s: "s = initialized_device chip chip_addr' wp_pin' h"
    and k: "addr_ov_bits s \<noteq> 0"
    and range: "uint address + uint len \<le> uint (chip_size s)"
    and len: "0 < len"
  shows "(let cs = spec_chunks (unat (page_size s)) (unat address) (unat len)
          in writeN s address vals len =
               Inr (True, s\<lparr>hal := hal s @ concat (map (\<lambda>(a, n).
                 [I2C_setAddress
                    (u8 ((uint (chip_addr s) AND 0xF8) OR drop_bit 8 (int a AND 0x0700))),
                  I2C_write8 (u8 (int a)) (Buf vals (a - unat address)) (u8 (int n)),
                  delay_ms EEPROM_WRITE_CYCLE_TIME_MS]) cs)\<rparr>)
           \<and> (\<forall>j < length cs.
                  fst (cs ! j) = unat address + sum_list (map snd (take j cs))))"
proof -
  note dev = table_device [OF chip s]
  from dev(5) [OF k] have one: "addr_bytes s = 1"
    by simp
  then have p: "write_page_size s len = page_size s"
    by (simp add: write_page_size_def)
  have "len \<noteq> 0"
    using len by auto
  then have "0 < unat len"
    by (simp add: unat_gt_0)
  then have pos: "0 < unat len + unat address mod unat (write_page_size s len)"
    by simp
  define cs where "cs = spec_chunks (unat (page_size s)) (unat address) (unat len)"
  have calls: "chunk_calls s address vals =
        (\<lambda>(a, n). [I2C_setAddress
                    (u8 ((uint (chip_addr s) AND 0xF8) OR drop_bit 8 (int a AND 0x0700))),
                  I2C_write8 (u8 (int a)) (Buf vals (a - unat address)) (u8 (int n)),
                  delay_ms EEPROM_WRITE_CYCLE_TIME_MS])"
    using k one by (auto simp add: fun_eq_iff)
  from writeN_chunking [OF dev(1) range dev(4) pos, of vals, unfolded Let_def p, folded cs_def]
  have w: "writeN s address vals len =
             Inr (True, s\<lparr>hal := hal s @ concat (map (chunk_calls s address vals) cs)\<rparr>)"
    and nth: "\<forall>j < length cs.
                cs ! j = (unat address + sum_list (map snd (take j cs)),
                          min (unat (page_size s)
                                 - (if j = 0 then unat address mod unat (page_size s) else 0))
                              (unat len - sum_list (map snd (take j cs))))"
    by blast+
  from nth have "\<forall>j < length cs. fst (cs ! j) = unat address + sum_list (map snd (take j cs))"
    by simp
  with w show ?thesis
    unfolding Let_def cs_def [symmetric] calls by blast
qed

text \<open>
  On an AT24C04 a write of 2 bytes at 0xFF crosses from the first 256 bytes to the
  second: the first chunk goes to bus address 0x50, the second to 0x51.
\<close>

theorem bus_address_per_chunk_witness:
  "AT24C04 \<in> set chip_table
   \<and> initialized_device AT24C04 0 255 [I2C_init, GPIO_pinMode_OUTPUT, GPIO_digitalWrite False]
       = init (AT24CXX_new AT24C04 0 255)
   \<and> addr_ov_bits (init (AT24CXX_new AT24C04 0 255)) \<noteq> 0
   \<and> uint (0xFF :: uint16_t) + uint (2 :: uint16_t)
       \<le> uint (chip_size (init (AT24CXX_new AT24C04 0 255)))
   \<and> (0 :: uint16_t) < 2
   \<and> spec_chunks (unat (page_size (init (AT24CXX_new AT24C04 0 255)))) 0xFF 2
       = [(0xFF, 1), (0x100, 1)]
   \<and> writeN (init (AT24CXX_new AT24C04 0 255)) 0xFF [0xAA, 0xBB] 2 =
       Inr (True, (init (AT24CXX_new AT24C04 0 255))
         \<lparr>hal := [I2C_init, GPIO_pinMode_OUTPUT, GPIO_digitalWrite False,
                  I2C_setAddress 0x50, I2C_write8 0xFF (Buf [0xAA, 0xBB] 0) 1, delay_ms 5,
                  I2C_setAddress 0x51, I2C_write8 0x00 (Buf [0xAA, 0xBB] 1) 1, delay_ms 5]\<rparr>)"
proof -
  let ?h = "[I2C_init, GPIO_pinMode_OUTPUT, GPIO_digitalWrite False]"
  let ?s = "initialized_device AT24C04 0 255 ?h"
  have chip: "AT24C04 \<in> set chip_table"
    by (simp add: chip_table_def)
  have s: "?s = init (AT24CXX_new AT24C04 0 255)"
    by (rule initialized_device_after_init)
  have fields: "chip_size ?s = 512" "page_size ?s = 16" "addr_bytes ?s = 1"
    "addr_ov_bits ?s = 1" "chip_addr ?s = 0x50" "hal ?s = ?h"
    by (simp_all add: initialized_device_fields AT24C04_def)
  have k: "addr_ov_bits ?s \<noteq> 0"
    and r: "uint (0xFF :: uint16_t) + uint (2 :: uint16_t) \<le> uint (chip_size ?s)"
    and l: "(0 :: uint16_t) < 2"
    by (simp_all add: fields)
  have "spec_chunks 16 0xFF 2 = [(0xFF, 1), (0x100, 1)]"
    by (simp add: spec_chunks_def spec_chunk_count_def numeral_2_eq_2 Let_def)
  then have plan: "spec_chunks (unat (page_size ?s)) 0xFF 2 = [(0xFF, 1), (0x100, 1)]"
    by (simp add: fields)
  have "writeN ?s 0xFF [0xAA, 0xBB] 2 =
        Inr (True, ?s\<lparr>hal := hal ?s @ concat (map (\<lambda>(a, n).
                 [I2C_setAddress
                    (u8 ((uint (chip_addr ?s) AND 0xF8) OR drop_bit 8 (int a AND 0x0700))),
                  I2C_write8 (u8 (int a)) (Buf [0xAA, 0xBB] (a - unat (0xFF :: uint16_t)))
                    (u8 (int n)),
                  delay_ms EEPROM_WRITE_CYCLE_TIME_MS])
          (spec_chunks (unat (page_size ?s)) (unat (0xFF :: uint16_t))
             (unat (2 :: uint16_t))))\<rparr>)"
    using bus_address_per_chunk [OF chip refl k r l, of "[0xAA, 0xBB]"] unfolding Let_def
    by (rule conjunct1)
  then have "writeN ?s 0xFF [0xAA, 0xBB] 2 =
        Inr (True, ?s\<lparr>hal := [I2C_init, GPIO_pinMode_OUTPUT, GPIO_digitalWrite False,
                  I2C_setAddress 0x50, I2C_write8 0xFF (Buf [0xAA, 0xBB] 0) 1, delay_ms 5,
                  I2C_setAddress 0x51, I2C_write8 0x00 (Buf [0xAA, 0xBB] 1) 1, delay_ms 5]\<rparr>)"
    using plan by (simp add: fields EEPROM_WRITE_CYCLE_TIME_MS_def)
  with chip k r l plan show ?thesis
    unfolding s by (simp only: simp_thms)
qed

section \<open>The page size in use\<close>

text \<open>
  Claim C5, amended. On an initialized device of any chip of the table, for every
  accepted write: when the chip has more than one address byte and the length is more
  than 30, the page size in use is 16, and otherwise it is the page size of the chip
  (which is itself 16 for AT24C04, AT24C08 and AT24C16); the chunks of the write are
  those of the plan for that page size.
\<close>

theorem effective_page_size:
  assumes chip: "chip \<in> set chip_table"
    and s: "s = initialized_device chip chip_addr' wp_pin' h"
    and range: "uint address + uint len \<le> uint (chip_size s)"
  shows "(1 < addr_bytes s \<and> 30 < len \<longrightarrow>
            write_page_size s len = 16
            \<and> writeN s address vals len =
                Inr (True, s\<lparr>hal := hal s @ concat (map (chunk_calls s address vals)
                  (spec_chunks 16 (unat address) (unat len)))\<rparr>))
       \<and> (\<not> (1 < addr_bytes s \<and> 30 < len) \<longrightarrow>
            write_page_size s len = page_size s
            \<and> (0 < unat len + unat address mod unat (page_size s) \<longrightarrow>
                writeN s address vals len =
                  Inr (True, s\<lparr>hal := hal s @ concat (map (chunk_calls s address vals)
                    (spec_chunks (unat (page_size s)) (unat address) (unat len)))\<rparr>)))"
proof (intro conjI impI)
  note dev = table_device [OF chip s]
  assume c: "1 < addr_bytes s \<and> 30 < len"
  then show p: "write_page_size s len = 16"
    by (simp add: write_page_size_def)
  have "len \<noteq> 0"
    using c by auto
  then have "0 < unat len"
    by (simp add: unat_gt_0)
  then have pos: "0 < unat len + unat address mod unat (write_page_size s len)"
    by simp
  show "writeN s address vals len =
          Inr (True, s\<lparr>hal := hal s @ concat (map (chunk_calls s address vals)
            (spec_chunks 16 (unat address) (unat len)))\<rparr>)"
    using writeN_accepted_plan [OF dev(1) range dev(4) pos, of vals] by (simp add: p)
next
  note dev = table_device [OF chip s]
  assume c: "\<not> (1 < addr_bytes s \<and> 30 < len)"
  then show p: "write_page_size s len = page_size s"
    unfolding write_page_size_def by (rule if_not_P)
  assume "0 < unat len + unat address mod unat (page_size s)"
  then have pos: "0 < unat len + unat address mod unat (write_page_size s len)"
    by (simp add: p)
  show "writeN s address vals len =
          Inr (True, s\<lparr>hal := hal s @ concat (map (chunk_calls s address vals)
            (spec_chunks (unat (page_size s)) (unat address) (unat len)))\<rparr>)"
    using writeN_accepted_plan [OF dev(1) range dev(4) pos, of vals] by (simp add: p)
qed

text \<open>
  The instance of the claim: AT24C32 (capacity 4096, page size 32, two address bytes),
  a write of 40 bytes at address 20: three chunks of 12, 16 and 12 bytes at the logical
  addresses 20, 32 and 48.
\<close>

theorem effective_page_size_witness:
  "AT24C32 \<in> set chip_table
   \<and> initialized_device AT24C32 0 255 [I2C_init, GPIO_pinMode_OUTPUT, GPIO_digitalWrite False]
       = init (AT24CXX_new AT24C32 0 255)
   \<and> uint (20 :: uint16_t) + uint (40 :: uint16_t)
       \<le> uint (chip_size (init (AT24CXX_new AT24C32 0 255)))
   \<and> 1 < addr_bytes (init (AT24CXX_new AT24C32 0 255)) \<and> (30 :: uint16_t) < 40
   \<and> page_size (init (AT24CXX_new AT24C32 0 255)) = 32
   \<and> write_page_size (init (AT24CXX_new AT24C32 0 255)) 40 = 16
   \<and> spec_chunks 16 20 40 = [(20, 12), (32, 16), (48, 12)]
   \<and> writeN (init (AT24CXX_new AT24C32 0 255)) 20 (replicate 40 0xFF) 40 =
       Inr (True, (init (AT24CXX_new AT24C32 0 255))
         \<lparr>hal := [I2C_init, GPIO_pinMode_OUTPUT, GPIO_digitalWrite False,
                  I2C_write16 20 (Buf (replicate 40 0xFF) 0) 12, delay_ms 5,
                  I2C_write16 32 (Buf (replicate 40 0xFF) 12) 16, delay_ms 5,
                  I2C_write16 48 (Buf (replicate 40 0xFF) 28) 12, delay_ms 5]\<rparr>)"
proof -
  let ?h = "[I2C_init, GPIO_pinMode_OUTPUT, GPIO_digitalWrite False]"
  let ?s = "initialized_device AT24C32 0 255 ?h"
  let ?vals = "replicate 40 (0xFF :: uint8_t)"
  have chip: "AT24C32 \<in> set chip_table"
    by (simp add: chip_table_def)
  have s: "?s = init (AT24CXX_new AT24C32 0 255)"
    by (rule initialized_device_after_init)
  have fields: "chip_size ?s = 4096" "page_size ?s = 32" "addr_bytes ?s = 2"
    "addr_ov_bits ?s = 0" "chip_addr ?s = 0x50" "hal ?s = ?h"
    by (simp_all add: initialized_device_fields AT24C32_def)
  have r: "uint (20 :: uint16_t) + uint (40 :: uint16_t) \<le> uint (chip_size ?s)"
    by (simp add: fields)
  have c: "1 < addr_bytes ?s \<and> (30 :: uint16_t) < 40"
    by (simp add: fields)
  have plan: "spec_chunks 16 20 40 = [(20, 12), (32, 16), (48, 12)]"
    by (simp add: spec_chunks_def spec_chunk_count_def numeral_3_eq_3 Let_def)
  from effective_page_size [OF chip refl r, of ?vals] c
  have p: "write_page_size ?s 40 = 16"
    and w: "writeN ?s 20 ?vals 40 =
        Inr (True, ?s\<lparr>hal := hal ?s @ concat (map (chunk_calls ?s 20 ?vals)
          (spec_chunks 16 (unat (20 :: uint16_t)) (unat (40 :: uint16_t))))\<rparr>)"
    by blast+
  from w have "writeN ?s 20 ?vals 40 =
        Inr (True, ?s\<lparr>hal := [I2C_init, GPIO_pinMode_OUTPUT, GPIO_digitalWrite False,
                  I2C_write16 20 (Buf ?vals 0) 12, delay_ms 5,
                  I2C_write16 32 (Buf ?vals 12) 16, delay_ms 5,
                  I2C_write16 48 (Buf ?vals 28) 12, delay_ms 5]\<rparr>)"
    by (simp add: plan fields EEPROM_WRITE_CYCLE_TIME_MS_def)
  with chip r c p plan fields(2) show ?thesis
    unfolding s by (simp only: simp_thms)
qed

text \<open>
  Claim C5 as stated says that the page size in use is 16 only if the chip has more
  than one address byte and the length is more than 30. On an AT24C04, with one address
  byte, a write of 2 bytes uses the page size 16 of the chip.
\<close>

theorem effective_page_size_counterexample:
  "AT24C04 \<in> set chip_table
   \<and> \<not> (write_page_size (init (AT24CXX_new AT24C04 0 255)) 2 = 16
           \<longleftrightarrow> 1 < addr_bytes (init (AT24CXX_new AT24C04 0 255)) \<and> (30 :: uint16_t) < 2)"
  by (simp add: write_page_size_def init_def AT24CXX_new_def AT24C04_def emit_def chip_table_def)

section \<open>Reads and empty transfers\<close>

text \<open>
  Claim C8. On an initialized device of any chip of the table, a read with
  \<open>address + length \<le> capacity_bytes\<close> succeeds and makes one combined
  write-address-then-read transaction for the whole length, preceded, when the chip has
  overflow bits, by one \<^verbatim>\<open>setAddress\<close> call computed from the starting address; there is
  no other call, in particular no delay.
\<close>

theorem read_is_one_transaction:
  assumes chip: "chip \<in> set chip_table"
    and s: "s = initialized_device chip chip_addr' wp_pin' h"
    and range: "uint address + uint len \<le> uint (chip_size s)"
  shows "readN s address len =
         (True, s\<lparr>hal := hal s @
            (if addr_ov_bits s \<noteq> 0
             then [I2C_setAddress ((chip_addr s AND 0xF8) OR ucast (drop_bit 8 (address AND 0x0700)))]
             else [])
            @ [if 1 < addr_bytes s then I2C_writeRead16 address len
               else I2C_writeRead8 (ucast address) len]\<rparr>)
       \<and> read_vals s address len = readN s address len
       \<and> read_str s address len = readN s address len"
  using readN_accepted [OF table_device(1) [OF chip s] range]
  by (simp only: read_vals_def read_str_def simp_thms)

theorem read_is_one_transaction_witness:
  "AT24C08 \<in> set chip_table
   \<and> initialized_device AT24C08 0 255 [I2C_init, GPIO_pinMode_OUTPUT, GPIO_digitalWrite False]
       = init (AT24CXX_new AT24C08 0 255)
   \<and> uint (0x1F0 :: uint16_t) + uint (0x40 :: uint16_t)
        \<le> uint (chip_size (init (AT24CXX_new AT24C08 0 255)))
   \<and> readN (init (AT24CXX_new AT24C08 0 255)) 0x1F0 0x40 =
       (True, (init (AT24CXX_new AT24C08 0 255))
          \<lparr>hal := [I2C_init, GPIO_pinMode_OUTPUT, GPIO_digitalWrite False,
                   I2C_setAddress 0x51, I2C_writeRead8 0xF0 0x40]\<rparr>)"
proof -
  let ?h = "[I2C_init, GPIO_pinMode_OUTPUT, GPIO_digitalWrite False]"
  let ?s = "initialized_device AT24C08 0 255 ?h"
  have chip: "AT24C08 \<in> set chip_table"
    by (simp add: chip_table_def)
  have s: "?s = init (AT24CXX_new AT24C08 0 255)"
    by (rule initialized_device_after_init)
  have fields: "chip_size ?s = 1024" "page_size ?s = 16" "addr_bytes ?s = 1"
    "addr_ov_bits ?s = 2" "chip_addr ?s = 0x50" "hal ?s = ?h"
    by (simp_all add: initialized_device_fields AT24C08_def)
  have r: "uint (0x1F0 :: uint16_t) + uint (0x40 :: uint16_t) \<le> uint (chip_size ?s)"
    by (simp add: fields)
  from read_is_one_transaction [OF chip refl r]
  have "readN ?s 0x1F0 0x40 =
       (True, ?s\<lparr>hal := [I2C_init, GPIO_pinMode_OUTPUT, GPIO_digitalWrite False,
                   I2C_setAddress 0x51, I2C_writeRead8 0xF0 0x40]\<rparr>)"
    by (simp add: fields)
  with chip r show ?thesis
    unfolding s by (simp only: simp_thms)
qed

text \<open>
  Claim C10. On an initialized device of any chip of the table, for every address up
  to and including the capacity, a write of length 0 succeeds and makes one bus write of
  length 0 followed by one delay, and a read of length 0 succeeds and makes one combined
  transaction of length 0 (each preceded by \<^verbatim>\<open>setAddress\<close> when the chip has overflow
  bits).
\<close>

theorem zero_length_transfer:
  assumes chip: "chip \<in> set chip_table"
    and s: "s = initialized_device chip chip_addr' wp_pin' h"
    and range: "uint address \<le> uint (chip_size s)"
  shows "writeN s address vals 0 =
         Inr (True, s\<lparr>hal := hal s @
            (if addr_ov_bits s \<noteq> 0
             then [I2C_setAddress ((chip_addr s AND 0xF8) OR ucast (drop_bit 8 (address AND 0x0700)))]
             else [])
            @ [if 1 < addr_bytes s then I2C_write16 address (Buf vals 0) 0
               else I2C_write8 (ucast address) (Buf vals 0) 0,
               delay_ms EEPROM_WRITE_CYCLE_TIME_MS]\<rparr>)
       \<and> readN s address 0 =
         (True, s\<lparr>hal := hal s @
            (if addr_ov_bits s \<noteq> 0
             then [I2C_setAddress ((chip_addr s AND 0xF8) OR ucast (drop_bit 8 (address AND 0x0700)))]
             else [])
            @ [if 1 < addr_bytes s then I2C_writeRead16 address 0
               else I2C_writeRead8 (ucast address) 0]\<rparr>)"
  by (rule zero_length_general [OF table_device(1) [OF chip s] range table_device(2) [OF chip s]])

theorem zero_length_transfer_witness:
  "AT24C02 \<in> set chip_table
   \<and> initialized_device AT24C02 0 255 [I2C_init, GPIO_pinMode_OUTPUT, GPIO_digitalWrite False]
       = init (AT24CXX_new AT24C02 0 255)
   \<and> uint (256 :: uint16_t) \<le> uint (chip_size (init (AT24CXX_new AT24C02 0 255)))
   \<and> writeN (init (AT24CXX_new AT24C02 0 255)) 256 [] 0 =
       Inr (True, (init (AT24CXX_new AT24C02 0 255))
          \<lparr>hal := [I2C_init, GPIO_pinMode_OUTPUT, GPIO_digitalWrite False,
                   I2C_write8 0 (Buf [] 0) 0, delay_ms 5]\<rparr>)
   \<and> readN (init (AT24CXX_new AT24C02 0 255)) 256 0 =
       (True, (init (AT24CXX_new AT24C02 0 255))
          \<lparr>hal := [I2C_init, GPIO_pinMode_OUTPUT, GPIO_digitalWrite False,
                   I2C_writeRead8 0 0]\<rparr>)"
proof -
  let ?h = "[I2C_init, GPIO_pinMode_OUTPUT, GPIO_digitalWrite False]"
  let ?s = "initialized_device AT24C02 0 255 ?h"
  have chip: "AT24C02 \<in> set chip_table"
    by (simp add: chip_table_def)
  have s: "?s = init (AT24CXX_new AT24C02 0 255)"
    by (rule initialized_device_after_init)
  have fields: "chip_size ?s = 256" "page_size ?s = 8" "addr_bytes ?s = 1"
    "addr_ov_bits ?s = 0" "chip_addr ?s = 0x50" "hal ?s = ?h"
    by (simp_all add: initialized_device_fields AT24C02_def)
  have r: "uint (256 :: uint16_t) \<le> uint (chip_size ?s)"
    by (simp add: fields)
  from zero_length_transfer [OF chip refl r, of "[]"]
  have "writeN ?s 256 [] 0 =
       Inr (True, ?s\<lparr>hal := [I2C_init, GPIO_pinMode_OUTPUT, GPIO_digitalWrite False,
                   I2C_write8 0 (Buf [] 0) 0, delay_ms 5]\<rparr>)
     \<and> readN ?s 256 0 =
       (True, ?s\<lparr>hal := [I2C_init, GPIO_pinMode_OUTPUT, GPIO_digitalWrite False,
                   I2C_writeRead8 0 0]\<rparr>)"
    by (simp add: fields EEPROM_WRITE_CYCLE_TIME_MS_def)
  with chip r show ?thesis
    unfolding s by (simp only: simp_thms)
qed

section \<open>Rejected requests, as a whole\<close>

text \<open>
  Claim C3. A request with \<open>address + length > capacity_bytes\<close> is rejected as a
  whole by the write and by the read: the result is failure and the device object is
  returned as it was, its log of calls included, so that no \<^verbatim>\<open>setAddress\<close>, no
  \<^verbatim>\<open>write\<close>, no \<^verbatim>\<open>writeRead\<close> and no delay has been issued. This holds in every
  state of the device, initialized or not.
\<close>

theorem range_violation_rejected:
  assumes "uint (chip_size s) < uint address + uint len"
  shows "writeN s address vals len = Inr (False, s)
       \<and> write_vals s address vals len = Inr (False, s)
       \<and> write_str s address str len = Inr (False, s)
       \<and> readN s address len = (False, s)
       \<and> read_vals s address len = (False, s)
       \<and> read_str s address len = (False, s)"
  using assms
  by (simp add: writeN_rejects readN_rejects write_vals_def write_str_def read_vals_def
        read_str_def)

theorem range_violation_rejected_witness:
  "uint (chip_size (init (AT24CXX_new AT24C02 0 255)))
     < uint (250 :: uint16_t) + uint (7 :: uint16_t)
   \<and> mode (init (AT24CXX_new AT24C02 0 255)) \<noteq> 0
   \<and> writeN (init (AT24CXX_new AT24C02 0 255)) 250 [1, 2, 3, 4, 5, 6, 7] 7
       = Inr (False, init (AT24CXX_new AT24C02 0 255))
   \<and> readN (init (AT24CXX_new AT24C02 0 255)) 250 7
       = (False, init (AT24CXX_new AT24C02 0 255))"
  using range_violation_rejected
    [of "init (AT24CXX_new AT24C02 0 255)" 250 7 "[1, 2, 3, 4, 5, 6, 7]" "[]"]
  by (simp add: init_def AT24CXX_new_def AT24C02_def emit_def)

section \<open>Before init\<close>

text \<open>
  Claim C4 says that before \<^verbatim>\<open>init()\<close> every data transfer fails without a bus
  transaction, whatever the constructor arguments. The constructor stores \<^verbatim>\<open>wp_pin\<close>
  in \<^verbatim>\<open>_mode\<close>, and the guard of \<^verbatim>\<open>writeN\<close> and \<^verbatim>\<open>readN\<close> is \<^verbatim>\<open>_mode\<close> being
  nonzero. With the default \<^verbatim>\<open>wp_pin = -1\<close>, which is 255 as a \<^verbatim>\<open>uint8_t\<close>, a
  device that has never been initialized writes and reads: the single-byte write at
  address 0 of an AT24C02 succeeds with one bus write and the delay, and a read of four
  bytes succeeds with one bus transaction.
\<close>

theorem uninitialized_device_transfers:
  "mode (AT24CXX_new AT24C02 0 0xFF) = 0xFF
   \<and> write_byte (AT24CXX_new AT24C02 0 0xFF) 0 0xAB
       = Inr (True, (AT24CXX_new AT24C02 0 0xFF)
                      \<lparr>hal := [I2C_write8 0 (Buf [0xAB] 0) 1, delay_ms 5]\<rparr>)
   \<and> read_vals (AT24CXX_new AT24C02 0 0xFF) 0 4
       = (True, (AT24CXX_new AT24C02 0 0xFF)\<lparr>hal := [I2C_writeRead8 0 4]\<rparr>)"
  by (simp add: write_byte_def read_vals_def driver_defs AT24C02_def)

section \<open>The write-protect pin\<close>

text \<open>
  Claim C7 says that on a device constructed without a write-protect pin
  (\<^verbatim>\<open>wp_pin = -1\<close>, 255 as a \<^verbatim>\<open>uint8_t\<close>) \<^verbatim>\<open>setWriteProtect()\<close> and
  \<^verbatim>\<open>clearWriteProtect()\<close> change no GPIO level, also after \<^verbatim>\<open>init()\<close>. In
  \<^verbatim>\<open>init()\<close> the test \<^verbatim>\<open>_mode != -1\<close> compares a \<^verbatim>\<open>uint8_t\<close> with \<open>-1\<close> and
  is always true: for every chip and chip address, \<^verbatim>\<open>init()\<close> configures the pin and
  sets the mode to 2, after which both operations write the pin.
\<close>

theorem write_protect_without_pin:
  "mode (init (AT24CXX_new chip chip_addr' 0xFF)) = 2
   \<and> hal (init (AT24CXX_new chip chip_addr' 0xFF))
       = [I2C_init, GPIO_pinMode_OUTPUT, GPIO_digitalWrite False]
   \<and> hal (setWriteProtect (init (AT24CXX_new chip chip_addr' 0xFF)))
       = [I2C_init, GPIO_pinMode_OUTPUT, GPIO_digitalWrite False, GPIO_digitalWrite True]
   \<and> hal (clearWriteProtect (init (AT24CXX_new chip chip_addr' 0xFF)))
       = [I2C_init, GPIO_pinMode_OUTPUT, GPIO_digitalWrite False, GPIO_digitalWrite False]"
  by (simp add: setWriteProtect_def clearWriteProtect_def init_def AT24CXX_new_def emit_def)

section \<open>The chip profiles\<close>

text \<open>
  Claim C9. For each of the ten chip selection constants the constructor decodes fields
  that satisfy the profile invariants: the capacity is positive and at most 65536, the
  page size is one of 8, 16, 32, 64, 128, the number of address bytes is 1 or 2, the
  number of overflow bits is between 0 and 3, and it is nonzero only with one address
  byte.
\<close>

theorem chip_profiles_satisfy_invariants:
  assumes "chip \<in> set chip_table"
  shows "(let d = AT24CXX_new chip chip_addr' wp_pin' in
           0 < chip_size d \<and> chip_size d \<le> 65536
           \<and> page_size d \<in> {8, 16, 32, 64, 128}
           \<and> addr_bytes d \<in> {1, 2}
           \<and> addr_ov_bits d \<in> {0, 1, 2, 3}
           \<and> (addr_ov_bits d \<noteq> 0 \<longrightarrow> addr_bytes d = 1))"
proof -
  from assms consider
      "chip = AT24C01" | "chip = AT24C02" | "chip = AT24C04" | "chip = AT24C08"
    | "chip = AT24C16" | "chip = AT24C32" | "chip = AT24C64" | "chip = AT24C128"
    | "chip = AT24C256" | "chip = AT24C512"
    unfolding chip_table_def by auto
  then show ?thesis
  proof cases
    case 1 then show ?thesis by (simp add: AT24CXX_new_def AT24C01_def)
  next
    case 2 then show ?thesis by (simp add: AT24CXX_new_def AT24C02_def)
  next
    case 3 then show ?thesis by (simp add: AT24CXX_new_def AT24C04_def)
  next
    case 4 then show ?thesis by (simp add: AT24CXX_new_def AT24C08_def)
  next
    case 5 then show ?thesis by (simp add: AT24CXX_new_def AT24C16_def)
  next
    case 6 then show ?thesis by (simp add: AT24CXX_new_def AT24C32_def)
  next
    case 7 then show ?thesis by (simp add: AT24CXX_new_def AT24C64_def)
  next
    case 8 then show ?thesis by (simp add: AT24CXX_new_def AT24C128_def)
  next
    case 9 then show ?thesis by (simp add: AT24CXX_new_def AT24C256_def)
  next
    case 10 then show ?thesis by (simp add: AT24CXX_new_def AT24C512_def)
  qed
qed

theorem chip_profiles_satisfy_invariants_witness:
  "AT24C16 \<in> set chip_table \<and>
   (let d = AT24CXX_new AT24C16 0 255 in
      chip_size d = 2048 \<and> page_size d = 16 \<and> addr_bytes d = 1 \<and> addr_ov_bits d = 3
      \<and> 0 < chip_size d \<and> chip_size d \<le> 65536
      \<and> page_size d \<in> {8, 16, 32, 64, 128}
      \<and> addr_bytes d \<in> {1, 2}
      \<and> addr_ov_bits d \<in> {0, 1, 2, 3}
      \<and> (addr_ov_bits d \<noteq> 0 \<longrightarrow> addr_bytes d = 1))"
  using chip_profiles_satisfy_invariants [of AT24C16 0 255]
  by (simp add: chip_table_def AT24CXX_new_def AT24C16_def)

end
